theory Spec2Isabelle
  imports Complex_Main "HOL-Library.Word"
begin

section \<open>JavaScript strings and numbers\<close>

text \<open>
  A JavaScript string is a sequence of UTF-16 code units; \<open>includes\<close>, \<open>trim\<close> and
  regular expressions without the \<open>u\<close> flag all work on code units. ASCII
  literals of the source are written with \<open>ascii\<close>.
\<close>

type_synonym jsstring = "16 word list"

definition ascii :: "string \<Rightarrow> jsstring" where
  "ascii s = map of_char s"

text \<open>\<open>p\<close> is a prefix of \<open>s\<close> (the test a regular expression makes for a literal).\<close>

fun starts_with :: "jsstring \<Rightarrow> jsstring \<Rightarrow> bool" where
  "starts_with [] s = True"
| "starts_with (p # ps) [] = False"
| "starts_with (p # ps) (c # cs) = (p = c \<and> starts_with ps cs)"

text \<open>\<open>s.includes(p)\<close>: \<open>p\<close> occurs in \<open>s\<close> at some position.\<close>

fun str_includes :: "jsstring \<Rightarrow> jsstring \<Rightarrow> bool" where
  "str_includes [] p = starts_with p []"
| "str_includes (c # cs) p = (starts_with p (c # cs) \<or> str_includes cs p)"

text \<open>
  The code units that \<open>String.prototype.trim\<close> strips and that \<open>\s\<close> matches:
  ECMAScript's WhiteSpace and LineTerminator.
\<close>

definition is_space :: "16 word \<Rightarrow> bool" where
  "is_space c = (c \<in> {0x9, 0xA, 0xB, 0xC, 0xD, 0x20, 0xA0, 0x1680, 0x2028, 0x2029,
                      0x202F, 0x205F, 0x3000, 0xFEFF} \<or> (0x2000 \<le> c \<and> c \<le> 0x200A))"

definition trim :: "jsstring \<Rightarrow> jsstring" where
  "trim s = rev (dropWhile is_space (rev (dropWhile is_space s)))"

text \<open>A JavaScript number as far as this code needs it: \<open>NaN\<close> or an exact value.\<close>

datatype jsnum = NaN | Num rat

text \<open>\<open>Math.max\<close> and \<open>Math.min\<close> return \<open>NaN\<close> as soon as an argument is \<open>NaN\<close>.\<close>

fun Math_max :: "jsnum \<Rightarrow> jsnum \<Rightarrow> jsnum" where
  "Math_max (Num a) (Num b) = Num (max a b)"
| "Math_max _ _ = NaN"

fun Math_min :: "jsnum \<Rightarrow> jsnum \<Rightarrow> jsnum" where
  "Math_min (Num a) (Num b) = Num (min a b)"
| "Math_min _ _ = NaN"

definition is_digit :: "16 word \<Rightarrow> bool" where
  "is_digit c = (0x30 \<le> c \<and> c \<le> 0x39)"

text \<open>The value of a run of decimal digits.\<close>

definition digits_val :: "jsstring \<Rightarrow> nat" where
  "digits_val ds = foldl (\<lambda>n c. 10 * n + (unat c - 48)) 0 ds"

text \<open>
  \<open>parseFloat\<close> on the strings the character class \<open>[0-9.]\<close> can capture: it reads the
  longest prefix that is a decimal literal (digits, then optionally a dot and digits)
  and gives \<open>NaN\<close> when that prefix has no digit. Rounding to a double is not modelled.
\<close>

definition parseFloat :: "jsstring \<Rightarrow> jsnum" where
  "parseFloat s =
     (let ip = takeWhile is_digit s;
          r = dropWhile is_digit s;
          fp = (case r of [] \<Rightarrow> [] | c # r' \<Rightarrow> if c = 0x2E then takeWhile is_digit r' else [])
      in if ip = [] \<and> fp = [] then NaN
         else Num (of_nat (digits_val (ip @ fp)) / 10 ^ length fp))"

section \<open>Confidence extraction (ai\_insights.ts, parseConfidence)\<close>

text \<open>
  The regular expression \<open>/\[CONFIDENCE:\s*([0-9.]+)\]/i\<close>. Without the \<open>u\<close> flag the
  \<open>i\<close> flag folds ASCII letters only. The three parts that follow the literal head
  use disjoint character classes, so the greedy match needs no backtracking.
\<close>

definition to_lower :: "16 word \<Rightarrow> 16 word" where
  "to_lower c = (if 0x41 \<le> c \<and> c \<le> 0x5A then c + 0x20 else c)"

definition is_numch :: "16 word \<Rightarrow> bool" where
  "is_numch c = (is_digit c \<or> c = 0x2E)"

definition tag_head :: jsstring where
  "tag_head = ascii ''[confidence:''"

text \<open>
  The expression matched at the start of \<open>s\<close>: the captured group and the text after
  the match.
\<close>

definition tag_at :: "jsstring \<Rightarrow> (jsstring \<times> jsstring) option" where
  "tag_at s =
     (if starts_with tag_head (map to_lower (take (length tag_head) s)) then
        (let r1 = dropWhile is_space (drop (length tag_head) s);
             num = takeWhile is_numch r1;
             r2 = dropWhile is_numch r1
         in if num \<noteq> [] \<and> starts_with [0x5D] r2 then Some (num, drop 1 r2) else None)
      else None)"

text \<open>
  \<open>text.match\<close> and \<open>text.replace\<close> without the \<open>g\<close> flag: the leftmost match, as
  (text before, captured group, text after).
\<close>

fun find_tag :: "jsstring \<Rightarrow> (jsstring \<times> jsstring \<times> jsstring) option" where
  "find_tag [] = None"
| "find_tag (c # cs) =
     (case tag_at (c # cs) of
        Some (num, rest) \<Rightarrow> Some ([], num, rest)
      | None \<Rightarrow>
          (case find_tag cs of
             Some (pre, num, rest) \<Rightarrow> Some (c # pre, num, rest)
           | None \<Rightarrow> None))"

definition parseConfidence :: "jsstring \<Rightarrow> jsstring \<times> jsnum" where
  "parseConfidence text =
     (case find_tag text of
        Some (pre, num, rest) \<Rightarrow>
          (trim (pre @ rest), Math_min (Num 1) (Math_max (Num 0) (parseFloat num)))
      | None \<Rightarrow> (text, Num (7 / 10)))"

section \<open>The insight marker and the remote description (garmin\_common)\<close>

text \<open>The robot emoji U+1F916 is the surrogate pair D83E DD16.\<close>

definition robot :: jsstring where
  "robot = [0xD83E, 0xDD16]"

definition marker :: jsstring where
  "marker = robot @ ascii '' AI Insights''"

definition marker_plain :: jsstring where
  "marker_plain = ascii ''AI Insights (''"

text \<open>The divider \<open>\n\n---\n\n\<close>.\<close>

definition divider :: jsstring where
  "divider = [0xA, 0xA, 0x2D, 0x2D, 0x2D, 0xA, 0xA]"

text \<open>The test both \<open>addActivityComment\<close> and \<open>hasActivityInsight\<close> make.\<close>

definition hasExistingInsight :: "jsstring \<Rightarrow> bool" where
  "hasExistingInsight d = (str_includes d marker \<or> str_includes d marker_plain)"

text \<open>
  The lazy tail \<open>[^]*?(?=\n\n---\n\n|$)\<close>: skip code units up to the first position
  where the divider starts, or to the end of the text.
\<close>

fun skip_block :: "jsstring \<Rightarrow> jsstring" where
  "skip_block [] = []"
| "skip_block (c # cs) = (if starts_with divider (c # cs) then c # cs else skip_block cs)"

text \<open>
  \<open>insightPattern\<close> matched at the start of \<open>s\<close>: what is left after the match. The
  optional divider is taken when the marker follows it.
\<close>

definition block_at :: "jsstring \<Rightarrow> jsstring option" where
  "block_at s =
     (if starts_with (divider @ marker) s
        then Some (skip_block (drop (length (divider @ marker)) s))
      else if starts_with marker s
        then Some (skip_block (drop (length marker) s))
      else None)"

lemma length_skip_block: "length (skip_block s) \<le> length s"
  by (induction s) auto

lemma starts_with_length: "starts_with p s \<Longrightarrow> length p \<le> length s"
  by (induction p s rule: starts_with.induct) auto

lemma skip_block_drop_shorter:
  assumes "0 < n" and "n \<le> length s"
  shows "length (skip_block (drop n s)) < length s"
proof -
  have "length (skip_block (drop n s)) \<le> length s - n"
    using length_skip_block [of "drop n s"] by simp
  with assms show ?thesis by arith
qed

lemma marker_length: "length marker = 14"
  by (simp add: marker_def robot_def ascii_def)

lemma divider_length: "length divider = 7"
  by (simp add: divider_def)

lemma block_at_shorter: "block_at s = Some r \<Longrightarrow> length r < length s"
proof -
  assume h: "block_at s = Some r"
  show ?thesis
  proof (cases "starts_with (divider @ marker) s")
    case True
    have r: "r = skip_block (drop 21 s)"
      using h True by (simp add: block_at_def marker_length divider_length)
    have "(21::nat) \<le> length s"
      using starts_with_length [OF True] by (simp add: marker_length divider_length)
    then show ?thesis unfolding r by (intro skip_block_drop_shorter) simp_all
  next
    case False
    show ?thesis
    proof (cases "starts_with marker s")
      case True
      have r: "r = skip_block (drop 14 s)"
        using h True False by (simp add: block_at_def marker_length)
      have "(14::nat) \<le> length s"
        using starts_with_length [OF True] by (simp add: marker_length)
      then show ?thesis unfolding r by (intro skip_block_drop_shorter) simp_all
    next
      case nomark: False
      then show ?thesis using h False by (simp add: block_at_def)
    qed
  qed
qed

text \<open>\<open>replace(insightPattern, '')\<close> with the \<open>g\<close> flag: every match is removed.\<close>

function strip_blocks :: "jsstring \<Rightarrow> jsstring" where
  "strip_blocks [] = []"
| "strip_blocks (c # cs) =
     (case block_at (c # cs) of
        Some r \<Rightarrow> strip_blocks r
      | None \<Rightarrow> c # strip_blocks cs)"
  by pat_completeness auto
termination
  by (relation "measure length") (auto dest: block_at_shorter)

section \<open>The process, its state and its collaborators\<close>

text \<open>
  What the outside world does is an input of the model: \<open>faulty k\<close> says whether the
  \<open>k\<close>-th interaction of the process with the outside (a database call, a request to the
  remote service, a call of the generative model, a timer) fails, \<open>model_reply k\<close> is
  what the model answers when interaction \<open>k\<close> is a model call, and \<open>took k\<close> is the
  time in milliseconds that interaction \<open>k\<close> takes (for a timer: beyond the time asked
  for), and \<open>prepared k\<close> is the time that the process spends on putting together the
  request of a model call when interaction \<open>k\<close> is that call. The module constants read
  from the process environment, and the library functions on dates and on doubles that
  the code calls, are inputs too.
\<close>

record error_detail =
  at_type :: "jsstring option"
  retryDelay :: "jsstring option"

record gen_error =
  status :: "nat option"
  statusText :: "jsstring option"
  errorDetails :: "error_detail list option"

datatype reply = Reply jsstring | Failure gen_error

datatype exn = StoreError | RemoteError | ModelError gen_error | RangeError

record env =
  AI_INSIGHTS_ENABLED :: bool
  GEMINI_API_KEY :: "jsstring option"
  new_Date :: "jsstring \<Rightarrow> int option"
  minus_days :: "int \<Rightarrow> int \<Rightarrow> int option"
  iso_day :: "int \<Rightarrow> jsstring"
  percent :: "jsnum \<Rightarrow> jsstring"
  model_reply :: "nat \<Rightarrow> reply"
  faulty :: "nat \<Rightarrow> bool"
  took :: "nat \<Rightarrow> nat"
  prepared :: "nat \<Rightarrow> nat"

text \<open>
  \<open>new_Date s\<close> is the time value of \<open>new Date(s)\<close> (\<open>None\<close> for an invalid date),
  \<open>minus_days t n\<close> the time value after \<open>d.setDate(d.getDate() - n)\<close>, \<open>iso_day t\<close>
  is \<open>toISOString().split('T')[0]\<close>, and \<open>percent c\<close> is \<open>(c * 100).toFixed(0)\<close>.
\<close>

record AIInsightData =
  d_activityId :: jsstring
  d_activityName :: jsstring
  d_insight :: jsstring
  d_model :: jsstring
  d_confidence :: jsnum

record remote_activity =
  r_activityName :: jsstring
  description :: "jsstring option"

datatype db_kind = DbOpen | DbRead | DbWrite

text \<open>
  What the process did to the outside, the latest event first. \<open>ModelCall s t\<close> is a
  request sent to the model at time \<open>t\<close>, the module variable \<open>lastRequestTime\<close> being \<open>s\<close>
  at that moment; \<open>Slept ms\<close> is a timer set to \<open>ms\<close> milliseconds.
\<close>

datatype event =
    Db db_kind
  | RemoteGet jsstring
  | RemotePost jsstring jsstring
  | ModelCall int int
  | Slept int

text \<open>
  The state: the clock, the module variable \<open>lastRequestTime\<close>, the number of
  interactions so far, the table \<open>ai_insights\<close> (its column names, \<open>None\<close> when the
  table does not exist, and its rows in descending order of \<open>id\<close>), the activities of
  the remote service keyed by identifier, and the trace.
\<close>

record world =
  now :: int
  lastRequestTime :: int
  steps :: nat
  ai_columns :: "jsstring list option"
  ai_rows :: "AIInsightData list"
  garmin :: "jsstring \<Rightarrow> remote_activity option"
  trace :: "event list"

type_synonym 'a io = "world \<Rightarrow> (exn + 'a) \<times> world"

definition io_return :: "'a \<Rightarrow> 'a io" where
  "io_return x = (\<lambda>w. (Inr x, w))"

definition io_throw :: "exn \<Rightarrow> 'a io" where
  "io_throw e = (\<lambda>w. (Inl e, w))"

definition io_bind :: "'a io \<Rightarrow> ('a \<Rightarrow> 'b io) \<Rightarrow> 'b io" where
  "io_bind m f = (\<lambda>w. case m w of (Inl e, w') \<Rightarrow> (Inl e, w') | (Inr x, w') \<Rightarrow> f x w')"

text \<open>\<open>try { m } catch (e) { h e }\<close>.\<close>

definition io_catch :: "'a io \<Rightarrow> (exn \<Rightarrow> 'a io) \<Rightarrow> 'a io" where
  "io_catch m h = (\<lambda>w. case m w of (Inl e, w') \<Rightarrow> h e w' | (Inr x, w') \<Rightarrow> (Inr x, w'))"

definition io_get :: "world io" where
  "io_get = (\<lambda>w. (Inr w, w))"

definition io_modify :: "(world \<Rightarrow> world) \<Rightarrow> unit io" where
  "io_modify f = (\<lambda>w. (Inr (), f w))"

text \<open>One interaction with the outside: it takes its time and is recorded.\<close>

definition interact :: "env \<Rightarrow> event \<Rightarrow> world \<Rightarrow> world" where
  "interact E ev w =
     w\<lparr>now := now w + int (took E (steps w)), steps := Suc (steps w), trace := ev # trace w\<rparr>"

text \<open>
  \<open>await new Promise(resolve => setTimeout(resolve, ms))\<close>. The timer of Node runs for
  \<open>ms\<close> milliseconds when \<open>ms\<close> is between 1 and \<open>2^31 - 1\<close>, and for 1 millisecond
  otherwise; the promise is resolved no earlier than that.
\<close>

definition TIMEOUT_MAX :: int where
  "TIMEOUT_MAX = 2147483647"

definition timer_delay :: "int \<Rightarrow> int" where
  "timer_delay ms = (if 1 \<le> ms \<and> ms \<le> TIMEOUT_MAX then ms else 1)"

definition sleep :: "env \<Rightarrow> int \<Rightarrow> unit io" where
  "sleep E ms =
     (\<lambda>w. (Inr (), (interact E (Slept ms) w)\<lparr>now := now w + timer_delay ms + int (took E (steps w))\<rparr>))"

subsection \<open>The insight store (sqlite.ts)\<close>

definition col_activity_id :: jsstring where "col_activity_id = ascii ''activity_id''"
definition col_activity_name :: jsstring where "col_activity_name = ascii ''activity_name''"
definition col_insight :: jsstring where "col_insight = ascii ''insight''"
definition col_model :: jsstring where "col_model = ascii ''model''"
definition col_confidence :: jsstring where "col_confidence = ascii ''confidence''"
definition col_created_at :: jsstring where "col_created_at = ascii ''created_at''"
definition col_id :: jsstring where "col_id = ascii ''id''"

definition full_schema :: "jsstring list" where
  "full_schema = [col_id, col_activity_id, col_activity_name, col_insight, col_model,
     col_confidence, col_created_at]"

text \<open>The table exists and has the columns a statement names.\<close>

definition has_columns :: "jsstring list \<Rightarrow> world \<Rightarrow> bool" where
  "has_columns cols w =
     (case ai_columns w of None \<Rightarrow> False | Some cs \<Rightarrow> list_all (\<lambda>c. c \<in> set cs) cols)"

text \<open>
  One call into SQLite: it raises when the environment makes it fail, or when the
  statement does not fit the schema (\<open>valid\<close>).
\<close>

definition db_call :: "env \<Rightarrow> db_kind \<Rightarrow> (world \<Rightarrow> bool) \<Rightarrow> unit io" where
  "db_call E k valid =
     (\<lambda>w. if faulty E (steps w) \<or> \<not> valid w then (Inl StoreError, interact E (Db k) w)
          else (Inr (), interact E (Db k) w))"

definition getDB :: "env \<Rightarrow> unit io" where
  "getDB E = db_call E DbOpen (\<lambda>w. True)"

text \<open>\<open>columnExists\<close>: \<open>PRAGMA table_info\<close>, then a search of its result.\<close>

definition columnExists :: "env \<Rightarrow> jsstring \<Rightarrow> bool io" where
  "columnExists E columnName =
     io_bind (db_call E DbRead (\<lambda>w. True)) (\<lambda>_.
     io_bind io_get (\<lambda>w.
     io_return (case ai_columns w of None \<Rightarrow> False | Some cs \<Rightarrow> columnName \<in> set cs)))"

text \<open>
  One step of the migration loop: \<open>ALTER TABLE ai_insights ADD COLUMN\<close> when the column is
  missing; the rows there get the default of the column. SQLite takes a constant as the
  default of an added column: \<open>accepted\<close> says whether the default clause is one.
\<close>

definition migrate ::
  "env \<Rightarrow> jsstring \<Rightarrow> bool \<Rightarrow> (AIInsightData \<Rightarrow> AIInsightData) \<Rightarrow> unit io" where
  "migrate E column accepted dflt =
     io_bind (columnExists E column) (\<lambda>ex.
       if \<not> ex then
         io_bind (db_call E DbWrite (\<lambda>w. accepted \<and> ai_columns w \<noteq> None)) (\<lambda>_.
         io_modify (\<lambda>w. w\<lparr>ai_columns := map_option (\<lambda>cs. cs @ [column]) (ai_columns w),
                           ai_rows := map dflt (ai_rows w)\<rparr>))
       else io_return ())"

definition initAIInsightsTable :: "env \<Rightarrow> unit io" where
  "initAIInsightsTable E =
     io_bind (getDB E) (\<lambda>_.
     io_bind (db_call E DbRead (\<lambda>w. True)) (\<lambda>_.
     io_bind io_get (\<lambda>w.
       if ai_columns w = None then
         io_bind (db_call E DbWrite (\<lambda>w. ai_columns w = None)) (\<lambda>_.
         io_modify (\<lambda>w. w\<lparr>ai_columns := Some full_schema, ai_rows := []\<rparr>))
       else
         io_bind (migrate E col_model True (\<lambda>r. r\<lparr>d_model := ascii ''unknown''\<rparr>)) (\<lambda>_.
         io_bind (migrate E col_confidence True (\<lambda>r. r\<lparr>d_confidence := Num (7 / 10)\<rparr>)) (\<lambda>_.
         migrate E col_created_at False (\<lambda>r. r))))))"

text \<open>
  The third migration gives \<open>created_at\<close> the default \<open>datetime('now')\<close>, a function call,
  which SQLite refuses with a syntax error: on a table without that column the
  statement raises.
\<close>

text \<open>\<open>INSERT OR REPLACE\<close> on the unique key \<open>activity_id\<close>; the new row has the highest \<open>id\<close>.\<close>

definition saveAIInsight :: "env \<Rightarrow> AIInsightData \<Rightarrow> unit io" where
  "saveAIInsight E d =
     io_bind (getDB E) (\<lambda>_.
     io_bind (db_call E DbWrite
        (has_columns [col_activity_id, col_activity_name, col_insight, col_model,
           col_confidence, col_created_at])) (\<lambda>_.
     io_modify (\<lambda>w. w\<lparr>ai_rows := d # filter (\<lambda>r. d_activityId r \<noteq> d_activityId d) (ai_rows w)\<rparr>)))"

definition getAIInsight :: "env \<Rightarrow> jsstring \<Rightarrow> jsstring option io" where
  "getAIInsight E activityId =
     io_bind (getDB E) (\<lambda>_.
     io_bind (db_call E DbRead (has_columns [col_insight, col_activity_id])) (\<lambda>_.
     io_bind io_get (\<lambda>w.
     io_return (map_option d_insight (find (\<lambda>r. d_activityId r = activityId) (ai_rows w))))))"

definition hasAIInsight :: "env \<Rightarrow> jsstring \<Rightarrow> bool io" where
  "hasAIInsight E activityId =
     io_bind (getAIInsight E activityId) (\<lambda>insight. io_return (insight \<noteq> None))"

definition getAllAIInsights :: "env \<Rightarrow> AIInsightData list io" where
  "getAllAIInsights E =
     io_bind (getDB E) (\<lambda>_.
     io_bind (db_call E DbRead (has_columns full_schema)) (\<lambda>_.
     io_bind io_get (\<lambda>w. io_return (ai_rows w))))"

subsection \<open>The remote service and the description of an activity (garmin\_common)\<close>

text \<open>\<open>client.getActivity\<close>: the activity, a falsy answer, or an exception.\<close>

definition getActivity :: "env \<Rightarrow> jsstring \<Rightarrow> remote_activity option io" where
  "getActivity E activityId =
     (\<lambda>w. if faulty E (steps w) then (Inl RemoteError, interact E (RemoteGet activityId) w)
          else (Inr (garmin w activityId), interact E (RemoteGet activityId) w))"

text \<open>
  \<open>client.client.post\<close> with the method override: the remote service replaces the
  description, or the request fails and changes nothing.
\<close>

definition post_description ::
  "env \<Rightarrow> jsstring \<Rightarrow> remote_activity \<Rightarrow> jsstring \<Rightarrow> unit io" where
  "post_description E activityId activity newDescription =
     (\<lambda>w. if faulty E (steps w)
          then (Inl RemoteError, interact E (RemotePost activityId newDescription) w)
          else (Inr (), (interact E (RemotePost activityId newDescription) w)
                  \<lparr>garmin := (garmin w)(activityId :=
                      Some (activity\<lparr>description := Some newDescription\<rparr>))\<rparr>))"

text \<open>\<open>activity.description || ''\<close>.\<close>

definition description_or_empty :: "remote_activity \<Rightarrow> jsstring" where
  "description_or_empty a = (case description a of None \<Rightarrow> [] | Some d \<Rightarrow> d)"

definition addActivityComment :: "env \<Rightarrow> jsstring \<Rightarrow> jsstring \<Rightarrow> bool \<Rightarrow> bool io" where
  "addActivityComment E activityId comment forceCheck =
     io_catch
       (io_bind (getActivity E activityId) (\<lambda>activity.
          case activity of
            None \<Rightarrow> io_return False
          | Some a \<Rightarrow>
              (let currentDescription = description_or_empty a in
               if hasExistingInsight currentDescription \<and> \<not> forceCheck then io_return True
               else
                 (let currentDescription =
                        (if hasExistingInsight currentDescription
                         then trim (strip_blocks currentDescription)
                         else currentDescription);
                      separator = (if currentDescription \<noteq> [] then divider else []);
                      newDescription = currentDescription @ separator @ comment
                  in io_bind (post_description E activityId a newDescription) (\<lambda>_.
                     io_return True)))))
       (\<lambda>error. io_return False)"

definition hasActivityInsight :: "env \<Rightarrow> jsstring \<Rightarrow> bool io" where
  "hasActivityInsight E activityId =
     io_catch
       (io_bind (getActivity E activityId) (\<lambda>activity.
          io_return (hasExistingInsight
            (case activity of None \<Rightarrow> [] | Some a \<Rightarrow> description_or_empty a))))
       (\<lambda>error. io_return False)"

section \<open>Trend context (ai\_insights.ts, getHistoricalContext)\<close>

text \<open>
  An activity identifier is a string or a number; \<open>String(id)\<close> normalises it. Numeric
  identifiers are integers, printed in decimal.
\<close>

datatype act_id = IdString jsstring | IdNumber int

fun dec_nat :: "nat \<Rightarrow> jsstring" where
  "dec_nat n = (if n < 10 then [of_nat (48 + n)] else dec_nat (n div 10) @ [of_nat (48 + n mod 10)])"

fun String_of :: "act_id \<Rightarrow> jsstring" where
  "String_of (IdString s) = s"
| "String_of (IdNumber i) = (if i < 0 then 0x2D # dec_nat (nat (- i)) else dec_nat (nat i))"

text \<open>
  The fields of \<open>GarminActivity\<close> that the engine branches on. The numeric metrics only
  flow into the text of the prompt, which is not part of this development: what the
  generative model answers is an input.
\<close>

record GarminActivity =
  activityId :: act_id
  activityName :: jsstring
  typeKey :: "jsstring option"
  startTimeLocal :: jsstring

record HistoricalContext =
  yesterdayActivity :: "GarminActivity option"
  lastWeekActivity :: "GarminActivity option"
  recentActivities :: "GarminActivity list"

text \<open>\<open>toISOString\<close> raises a \<open>RangeError\<close> on an invalid date.\<close>

definition getDateString :: "env \<Rightarrow> int option \<Rightarrow> exn + jsstring" where
  "getDateString E d = (case d of None \<Rightarrow> Inl RangeError | Some t \<Rightarrow> Inr (iso_day E t))"

text \<open>\<open>sameTypeActivities.find\<close> with the callback that compares the date strings.\<close>

fun find_yesterday :: "env \<Rightarrow> jsstring \<Rightarrow> GarminActivity list \<Rightarrow> exn + GarminActivity option" where
  "find_yesterday E yesterdayStr [] = Inr None"
| "find_yesterday E yesterdayStr (a # as) =
     (case getDateString E (new_Date E (startTimeLocal a)) of
        Inl e \<Rightarrow> Inl e
      | Inr actDate \<Rightarrow>
          if actDate = yesterdayStr then Inr (Some a) else find_yesterday E yesterdayStr as)"

text \<open>Comparisons of dates are comparisons of time values; one with \<open>NaN\<close> is false.\<close>

definition date_le :: "int option \<Rightarrow> int option \<Rightarrow> bool" where
  "date_le a b = (case (a, b) of (Some x, Some y) \<Rightarrow> x \<le> y | _ \<Rightarrow> False)"

definition date_less :: "int option \<Rightarrow> int option \<Rightarrow> bool" where
  "date_less a b = (case (a, b) of (Some x, Some y) \<Rightarrow> x < y | _ \<Rightarrow> False)"

definition time_of :: "env \<Rightarrow> GarminActivity \<Rightarrow> int" where
  "time_of E a = (case new_Date E (startTimeLocal a) of None \<Rightarrow> 0 | Some t \<Rightarrow> t)"

definition getHistoricalContext ::
  "env \<Rightarrow> GarminActivity \<Rightarrow> GarminActivity list \<Rightarrow> exn + HistoricalContext" where
  "getHistoricalContext E currentActivity allActivities =
     (let activityType = typeKey currentActivity;
          currentDate = new_Date E (startTimeLocal currentActivity);
          sameTypeActivities = filter (\<lambda>a. typeKey a = activityType \<and>
              String_of (activityId a) \<noteq> String_of (activityId currentActivity)) allActivities;
          yesterday = Option.bind currentDate (\<lambda>t. minus_days E t 1)
      in case getDateString E yesterday of
           Inl e \<Rightarrow> Inl e
         | Inr yesterdayStr \<Rightarrow>
             (let lastWeekStart = Option.bind currentDate (\<lambda>t. minus_days E t 8);
                  lastWeekEnd = Option.bind currentDate (\<lambda>t. minus_days E t 6)
              in case find_yesterday E yesterdayStr sameTypeActivities of
                   Inl e \<Rightarrow> Inl e
                 | Inr found \<Rightarrow>
                     Inr \<lparr>yesterdayActivity = found,
                          lastWeekActivity = find (\<lambda>a.
                             date_le lastWeekStart (new_Date E (startTimeLocal a)) \<and>
                             date_le (new_Date E (startTimeLocal a)) lastWeekEnd) sameTypeActivities,
                          recentActivities = take 7 (sort_key (\<lambda>a. - time_of E a)
                             (filter (\<lambda>a. date_less (new_Date E (startTimeLocal a)) currentDate)
                                sameTypeActivities))\<rparr>))"

section \<open>Generation client (ai\_insights.ts)\<close>

definition isAIInsightsEnabled :: "env \<Rightarrow> bool" where
  "isAIInsightsEnabled E =
     (if \<not> AI_INSIGHTS_ENABLED E then False
      else if (case GEMINI_API_KEY E of None \<Rightarrow> True | Some k \<Rightarrow> k = []) then False
      else True)"

definition GEMINI_MODEL :: jsstring where
  "GEMINI_MODEL = ascii ''gemini-2.5-flash-lite''"

definition MAX_RETRIES :: nat where
  "MAX_RETRIES = 3"

definition BASE_DELAY_MS :: int where
  "BASE_DELAY_MS = 2000"

definition MIN_REQUEST_INTERVAL_MS :: int where
  "MIN_REQUEST_INTERVAL_MS = 1000"

record AIInsightResult =
  insight :: jsstring
  model :: jsstring
  confidence :: jsnum

definition waitForRateLimit :: "env \<Rightarrow> unit io" where
  "waitForRateLimit E =
     io_bind io_get (\<lambda>w.
       (let timeSinceLastRequest = now w - lastRequestTime w in
        io_bind (if timeSinceLastRequest < MIN_REQUEST_INTERVAL_MS
                 then sleep E (MIN_REQUEST_INTERVAL_MS - timeSinceLastRequest)
                 else io_return ()) (\<lambda>_.
        io_modify (\<lambda>w. w\<lparr>lastRequestTime := now w\<rparr>))))"

text \<open>
  The statements between the wait and the request: \<open>getGeminiClient()\<close>, which builds the
  client when the process has none yet, \<open>client.getGenerativeModel\<close> and
  \<open>formatActivityPrompt\<close>. They take the time the environment says.
\<close>

definition prepare :: "env \<Rightarrow> unit io" where
  "prepare E = io_modify (\<lambda>w. w\<lparr>now := now w + int (prepared E (steps w))\<rparr>)"

text \<open>
  \<open>model.generateContent(prompt)\<close> and \<open>response.text()\<close>: the request is sent at the
  current time; its answer, or the error it raises, comes from the environment.
\<close>

definition generateContent :: "env \<Rightarrow> jsstring io" where
  "generateContent E =
     (\<lambda>w. case model_reply E (steps w) of
            Reply text \<Rightarrow> (Inr text, interact E (ModelCall (lastRequestTime w) (now w)) w)
          | Failure g \<Rightarrow>
              (Inl (ModelError g), interact E (ModelCall (lastRequestTime w) (now w)) w))"

text \<open>The body of the \<open>try\<close> block of one attempt.\<close>

definition attempt_once :: "env \<Rightarrow> AIInsightResult io" where
  "attempt_once E =
     io_bind (waitForRateLimit E) (\<lambda>_.
     io_bind (prepare E) (\<lambda>_.
     io_bind (generateContent E) (\<lambda>text.
       (case parseConfidence (trim text) of
          (i, c) \<Rightarrow> io_return \<lparr>insight = i, model = GEMINI_MODEL, confidence = c\<rparr>))))"

definition isRateLimited :: "exn \<Rightarrow> bool" where
  "isRateLimited error =
     (case error of
        ModelError g \<Rightarrow> status g = Some 429 \<or> statusText g = Some (ascii ''Too Many Requests'')
      | _ \<Rightarrow> False)"

text \<open>\<open>retryDelay.match(/(\d+)/)\<close>: the first run of digits.\<close>

definition first_digits :: "jsstring \<Rightarrow> jsstring option" where
  "first_digits s =
     (let r = dropWhile (\<lambda>c. \<not> is_digit c) s in
      if r = [] then None else Some (takeWhile is_digit r))"

text \<open>
  The delay the provider suggests in the structured error details, in milliseconds:
  \<open>parseInt(match[1]) * 1000\<close>, taken as the exact number (a double is exact up to
  \<open>2^53\<close>). The details are an array of objects whose \<open>@type\<close> and \<open>retryDelay\<close>, when
  present, are strings.
\<close>

definition suggested_delay :: "exn \<Rightarrow> int option" where
  "suggested_delay error =
     (case error of
        ModelError g \<Rightarrow>
          (case errorDetails g of
             None \<Rightarrow> None
           | Some ds \<Rightarrow>
               (case find (\<lambda>d. case at_type d of None \<Rightarrow> False
                                | Some t \<Rightarrow> str_includes t (ascii ''RetryInfo'')) ds of
                  None \<Rightarrow> None
                | Some retryInfo \<Rightarrow>
                    (case retryDelay retryInfo of
                       None \<Rightarrow> None
                     | Some rd \<Rightarrow>
                         if rd = [] then None
                         else map_option (\<lambda>m. int (digits_val m) * 1000) (first_digits rd))))
      | _ \<Rightarrow> None)"

definition retry_delay :: "nat \<Rightarrow> exn \<Rightarrow> int" where
  "retry_delay attempt error =
     (case suggested_delay error of
        Some ms \<Rightarrow> ms
      | None \<Rightarrow> BASE_DELAY_MS * 2 ^ (attempt - 1))"

text \<open>The \<open>for\<close> loop over the attempts, from \<open>attempt\<close> on.\<close>

function attempts :: "env \<Rightarrow> nat \<Rightarrow> world \<Rightarrow> (exn + AIInsightResult option) \<times> world" where
  "attempts E attempt w =
     (if attempt \<le> MAX_RETRIES then
        (case attempt_once E w of
           (Inr r, w') \<Rightarrow> (Inr (Some r), w')
         | (Inl error, w') \<Rightarrow>
             if isRateLimited error \<and> attempt < MAX_RETRIES
             then (case sleep E (retry_delay attempt error) w' of
                     (_, w'') \<Rightarrow> attempts E (Suc attempt) w'')
             else (Inr None, w'))
      else (Inr None, w))"
  by pat_completeness auto
termination
  by (relation "measure (\<lambda>(E, attempt, w). Suc MAX_RETRIES - attempt)") auto

declare attempts.simps [simp del]

definition io_lift :: "exn + 'a \<Rightarrow> 'a io" where
  "io_lift r = (\<lambda>w. (r, w))"

definition generateActivityInsights ::
  "env \<Rightarrow> GarminActivity \<Rightarrow> GarminActivity list option \<Rightarrow> AIInsightResult option io" where
  "generateActivityInsights E activity allActivities =
     (if \<not> isAIInsightsEnabled E then io_return None
      else
        io_bind (io_lift
          (case allActivities of
             None \<Rightarrow> Inr None
           | Some acts \<Rightarrow>
               if length acts > 1
               then map_sum id Some (getHistoricalContext E activity acts)
               else Inr None)) (\<lambda>historicalContext.
        attempts E 1))"

section \<open>Reconciliation engine (ai\_insights.ts)\<close>

text \<open>
  The comment posted to the remote description. In \<open>ai_insights.ts\<close> its template starts
  with the four code units U+00F0 U+0178 U+00A4 U+2013, the bytes of the emoji read as
  Windows-1252, and not with the emoji of the marker in \<open>garmin_common\<close>.
\<close>

definition comment_lead :: jsstring where
  "comment_lead = [0xF0, 0x178, 0xA4, 0x2013]"

definition insight_comment :: "env \<Rightarrow> jsstring \<Rightarrow> jsnum \<Rightarrow> jsstring \<Rightarrow> jsstring" where
  "insight_comment E m c i =
     comment_lead @ ascii '' AI Insights ('' @ m @ ascii '', '' @ percent E c @
       ascii ''% confidence):'' @ [0xA] @ i"

text \<open>The Garmin client handed to the engine; the remote service itself is in the state.\<close>

datatype client = GarminClient

definition processActivityWithInsights ::
  "env \<Rightarrow> GarminActivity \<Rightarrow> client option \<Rightarrow> GarminActivity list option \<Rightarrow> bool \<Rightarrow>
     AIInsightResult option io" where
  "processActivityWithInsights E activity cl allActivities forceUpdate =
     (if \<not> isAIInsightsEnabled E then io_return None
      else
        (let aid = String_of (activityId activity) in
         io_catch
           (io_bind (initAIInsightsTable E) (\<lambda>_.
            io_bind (if \<not> forceUpdate then hasAIInsight E aid else io_return False) (\<lambda>has.
              if \<not> forceUpdate \<and> has then io_return None
              else
                io_bind (generateActivityInsights E activity allActivities) (\<lambda>result.
                  case result of
                    Some r \<Rightarrow>
                      io_bind (saveAIInsight E
                         \<lparr>d_activityId = aid, d_activityName = activityName activity,
                          d_insight = insight r, d_model = model r,
                          d_confidence = confidence r\<rparr>) (\<lambda>_.
                      io_bind (case cl of
                                 Some c \<Rightarrow>
                                   io_bind (addActivityComment E aid
                                      (insight_comment E (model r) (confidence r) (insight r))
                                      forceUpdate) (\<lambda>commentSuccess. io_return ())
                               | None \<Rightarrow> io_return ()) (\<lambda>_.
                      io_return (Some r)))
                  | None \<Rightarrow> io_return None))))
           (\<lambda>error. io_return None)))"

text \<open>The loop of \<open>processActivitiesWithInsights\<close> over the activities left.\<close>

fun process_loop ::
  "env \<Rightarrow> client option \<Rightarrow> GarminActivity list \<Rightarrow> GarminActivity list \<Rightarrow> nat \<Rightarrow> nat io" where
  "process_loop E cl activities [] processedCount = io_return processedCount"
| "process_loop E cl activities (a # rest) processedCount =
     io_bind (hasAIInsight E (String_of (activityId a))) (\<lambda>has.
       if has then process_loop E cl activities rest processedCount
       else
         io_bind (processActivityWithInsights E a cl (Some activities) False) (\<lambda>insights.
           case insights of
             Some r \<Rightarrow>
               io_bind (sleep E 500) (\<lambda>_. process_loop E cl activities rest (Suc processedCount))
           | None \<Rightarrow> process_loop E cl activities rest processedCount))"

definition processActivitiesWithInsights ::
  "env \<Rightarrow> GarminActivity list \<Rightarrow> client option \<Rightarrow> nat io" where
  "processActivitiesWithInsights E activities cl =
     (if \<not> isAIInsightsEnabled E then io_return 0
      else io_bind (initAIInsightsTable E) (\<lambda>_. process_loop E cl activities activities 0))"

text \<open>
  The body of the loop of \<open>syncMissingInsightsToGarmin\<close> for one stored insight, and the
  loop over the insights left. Of the three counters only \<open>syncedCount\<close> is returned;
  the other two are logged.
\<close>

definition sync_one :: "env \<Rightarrow> AIInsightData \<Rightarrow> nat \<Rightarrow> nat io" where
  "sync_one E r syncedCount =
     io_catch
       (io_bind (hasActivityInsight E (d_activityId r)) (\<lambda>hasInsight.
          if hasInsight then io_return syncedCount
          else
            io_bind (addActivityComment E (d_activityId r)
               (insight_comment E (d_model r) (d_confidence r) (d_insight r)) False) (\<lambda>success.
            io_bind (sleep E 1000) (\<lambda>_.
            io_return (if success then Suc syncedCount else syncedCount)))))
       (\<lambda>error. io_return syncedCount)"

fun sync_loop :: "env \<Rightarrow> AIInsightData list \<Rightarrow> nat \<Rightarrow> nat io" where
  "sync_loop E [] syncedCount = io_return syncedCount"
| "sync_loop E (r # rest) syncedCount =
     io_bind (sync_one E r syncedCount) (\<lambda>n. sync_loop E rest n)"

definition syncMissingInsightsToGarmin :: "env \<Rightarrow> client \<Rightarrow> nat io" where
  "syncMissingInsightsToGarmin E cl =
     io_bind (initAIInsightsTable E) (\<lambda>_.
     io_bind (getAllAIInsights E) (\<lambda>allInsights.
       if allInsights = [] then io_return 0
       else sync_loop E allInsights 0))"

section \<open>Predicates used in the statements\<close>

text \<open>The confidence expression matches at none of the first \<open>n\<close> positions of \<open>s\<close>.\<close>

fun no_tag_before :: "nat \<Rightarrow> jsstring \<Rightarrow> bool" where
  "no_tag_before 0 s = True"
| "no_tag_before (Suc n) s = (tag_at s = None \<and> no_tag_before n (drop 1 s))"

definition confidence_tag :: jsstring where
  "confidence_tag = ascii ''[CONFIDENCE: 0.85]''"


text \<open>The times at which the model was called, the latest first.\<close>

fun call_times_of :: "event list \<Rightarrow> int list" where
  "call_times_of [] = []"
| "call_times_of (ModelCall s t # es) = t # call_times_of es"
| "call_times_of (e # es) = call_times_of es"

definition call_times :: "world \<Rightarrow> int list" where
  "call_times w = call_times_of (trace w)"

text \<open>The model calls, each with the value of \<open>lastRequestTime\<close> and its time.\<close>

fun calls_of :: "event list \<Rightarrow> (int \<times> int) list" where
  "calls_of [] = []"
| "calls_of (ModelCall s t # es) = (s, t) # calls_of es"
| "calls_of (e # es) = calls_of es"

definition calls :: "world \<Rightarrow> (int \<times> int) list" where
  "calls w = calls_of (trace w)"

text \<open>The description after a comment is appended to it.\<close>

definition appended :: "jsstring \<Rightarrow> jsstring \<Rightarrow> jsstring" where
  "appended old comment = old @ (if old = [] then [] else divider) @ comment"

text \<open>
  An action is quiet when it calls no model, leaves \<open>lastRequestTime\<close> alone and does not
  turn the clock back.
\<close>

definition quiet :: "'a io \<Rightarrow> bool" where
  "quiet m = (\<forall>w. calls (snd (m w)) = calls w
                \<and> lastRequestTime (snd (m w)) = lastRequestTime w
                \<and> now w \<le> now (snd (m w)))"

text \<open>The environment with the enable flag and the credential replaced.\<close>

definition regated :: "env \<Rightarrow> bool \<Rightarrow> jsstring option \<Rightarrow> env" where
  "regated E b k = E\<lparr>AI_INSIGHTS_ENABLED := b, GEMINI_API_KEY := k\<rparr>"

text \<open>
  Call times, the latest first, are spaced when each is at least the minimum interval
  after the one before it. Calls are paced when the value of \<open>lastRequestTime\<close> at each
  call is at least the minimum interval after its value at the call before, and no call is
  earlier than its value of \<open>lastRequestTime\<close>. The invariant of the rate limiter: the
  calls so far are paced, \<open>lastRequestTime\<close> is not below its value at the latest call, and
  it is not in the future.
\<close>

fun spaced :: "int list \<Rightarrow> bool" where
  "spaced (t2 # t1 # ts) = (t1 + MIN_REQUEST_INTERVAL_MS \<le> t2 \<and> spaced (t1 # ts))"
| "spaced ts = True"

fun paced :: "(int \<times> int) list \<Rightarrow> bool" where
  "paced [] = True"
| "paced ((s, t) # cs) =
     (s \<le> t
      \<and> (case cs of [] \<Rightarrow> True | (s1, t1) # rest \<Rightarrow> s1 + MIN_REQUEST_INTERVAL_MS \<le> s)
      \<and> paced cs)"

definition rate_inv :: "world \<Rightarrow> bool" where
  "rate_inv w =
     (paced (calls w)
      \<and> (case calls w of [] \<Rightarrow> True | (s, t) # cs \<Rightarrow> s \<le> lastRequestTime w)
      \<and> lastRequestTime w \<le> now w)"

text \<open>An action keeps an invariant of the state.\<close>

definition keeps :: "(world \<Rightarrow> bool) \<Rightarrow> 'a io \<Rightarrow> bool" where
  "keeps I m = (\<forall>w. I w \<longrightarrow> I (snd (m w)))"

text \<open>
  The store holds a record keyed \<open>aid\<close>: the table exists and has a row with that
  key.
\<close>

definition store_has :: "jsstring \<Rightarrow> world \<Rightarrow> bool" where
  "store_has aid w = (ai_columns w \<noteq> None \<and> list_ex (\<lambda>r. d_activityId r = aid) (ai_rows w))"

text \<open>The events that write to the store or to the remote service.\<close>

fun is_write :: "event \<Rightarrow> bool" where
  "is_write (Db DbWrite) = True"
| "is_write (RemotePost i d) = True"
| "is_write e = False"

definition writes_of :: "world \<Rightarrow> event list" where
  "writes_of w = filter is_write (trace w)"

text \<open>
  The columns \<open>saveAIInsight\<close> names; the store is ready for \<open>aid\<close> when the table has
  them and holds a row keyed \<open>aid\<close>; and a state is settled with respect to an earlier
  one when the store is ready and nothing was generated or written in between.
\<close>

definition saved_columns :: "jsstring list" where
  "saved_columns = [col_activity_id, col_activity_name, col_insight, col_model,
     col_confidence, col_created_at]"

definition store_ready :: "jsstring \<Rightarrow> world \<Rightarrow> bool" where
  "store_ready aid w =
     (has_columns saved_columns w \<and> list_ex (\<lambda>r. d_activityId r = aid) (ai_rows w))"

definition settled :: "jsstring \<Rightarrow> world \<Rightarrow> world \<Rightarrow> bool" where
  "settled aid w0 w =
     (store_ready aid w \<and> call_times w = call_times w0 \<and> writes_of w = writes_of w0
      \<and> ai_rows w = ai_rows w0 \<and> ai_columns w = ai_columns w0 \<and> garmin w = garmin w0)"

text \<open>The number of positions of \<open>s\<close> at which \<open>p\<close> occurs.\<close>

fun count_occ :: "jsstring \<Rightarrow> jsstring \<Rightarrow> nat" where
  "count_occ p [] = 0"
| "count_occ p (c # cs) = (if starts_with p (c # cs) then 1 else 0) + count_occ p cs"

text \<open>
  The description that a forced call posts: the old one with every block that starts
  with the emoji marker removed, trimmed, then the divider and the comment.
\<close>

definition replaced :: "jsstring \<Rightarrow> jsstring \<Rightarrow> jsstring" where
  "replaced old comment =
     (let base = (if hasExistingInsight old then trim (strip_blocks old) else old)
      in base @ (if base \<noteq> [] then divider else []) @ comment)"

section \<open>A sample environment and state\<close>

text \<open>
  Concrete inputs on which the statements below are evaluated. In the sample
  environment a date is written as a day number, the model always answers the same
  text, nothing fails and nothing takes time.
\<close>

definition sample_percent :: "jsnum \<Rightarrow> jsstring" where
  "sample_percent c = (case c of NaN \<Rightarrow> ascii ''NaN'' | Num q \<Rightarrow> dec_nat (nat \<lfloor>q * 100 + 1 / 2\<rfloor>))"

definition sample_env :: env where
  "sample_env =
     \<lparr>AI_INSIGHTS_ENABLED = True,
      GEMINI_API_KEY = Some (ascii ''key''),
      new_Date = (\<lambda>s. if s \<noteq> [] \<and> list_all is_digit s
                        then Some (int (digits_val s) * 86400000) else None),
      minus_days = (\<lambda>t n. Some (t - n * 86400000)),
      iso_day = (\<lambda>t. dec_nat (nat (t div 86400000))),
      percent = sample_percent,
      model_reply = (\<lambda>k. Reply (ascii ''Steady effort. [CONFIDENCE: 0.85]'')),
      faulty = (\<lambda>k. False),
      took = (\<lambda>k. 0),
      prepared = (\<lambda>k. 0)\<rparr>"

definition run_remote :: remote_activity where
  "run_remote = \<lparr>r_activityName = ascii ''Morning Run'', description = None\<rparr>"

definition world0 :: world where
  "world0 =
     \<lparr>now = 0, lastRequestTime = 0, steps = 0, ai_columns = None, ai_rows = [],
      garmin = (\<lambda>i. if i = ascii ''100'' then Some run_remote else None),
      trace = []\<rparr>"

definition sample_comment :: jsstring where
  "sample_comment = insight_comment sample_env GEMINI_MODEL (Num (85 / 100)) (ascii ''Steady effort.'')"

definition activity_on :: "int \<Rightarrow> string \<Rightarrow> string \<Rightarrow> GarminActivity" where
  "activity_on i ty day =
     \<lparr>activityId = IdNumber i, activityName = ascii ''Run'', typeKey = Some (ascii ty),
      startTimeLocal = ascii day\<rparr>"

definition flaky_env :: env where
  "flaky_env = sample_env\<lparr>faulty := (\<lambda>k. k = 0)\<rparr>"

definition sample_row :: AIInsightData where
  "sample_row = \<lparr>d_activityId = ascii ''100'', d_activityName = ascii ''Morning Run'',
     d_insight = ascii ''Steady effort.'', d_model = GEMINI_MODEL, d_confidence = Num (85 / 100)\<rparr>"

definition candidates :: "GarminActivity list" where
  "candidates = [activity_on 1 ''running'' ''10'', activity_on 2 ''running'' ''9'',
     activity_on 3 ''cycling'' ''9'', activity_on 4 ''running'' ''3'']"

definition sample_context :: HistoricalContext where
  "sample_context =
     \<lparr>yesterdayActivity = Some (activity_on 2 ''running'' ''9''),
      lastWeekActivity = Some (activity_on 4 ''running'' ''3''),
      recentActivities = [activity_on 2 ''running'' ''9'', activity_on 4 ''running'' ''3'']\<rparr>"




definition server_error :: gen_error where
  "server_error = \<lparr>status = Some 500, statusText = None, errorDetails = None\<rparr>"



definition sample_result :: AIInsightResult where
  "sample_result = \<lparr>insight = ascii ''Steady effort.'', model = GEMINI_MODEL,
     confidence = Num (85 / 100)\<rparr>"

definition disabled_env :: env where
  "disabled_env = regated sample_env False None"

definition stored_world :: world where
  "stored_world = world0\<lparr>ai_columns := Some full_schema, ai_rows := [sample_row]\<rparr>"

definition run :: GarminActivity where
  "run = \<lparr>activityId = IdNumber 100, activityName = ascii ''Morning Run'',
     typeKey = Some (ascii ''running''), startTimeLocal = ascii ''10''\<rparr>"

definition dead_disk_env :: env where
  "dead_disk_env = sample_env\<lparr>faulty := (\<lambda>k. True)\<rparr>"

definition full_disk_env :: env where
  "full_disk_env = sample_env\<lparr>faulty := (\<lambda>k. k = 5)\<rparr>"

definition after_one_call :: world where
  "after_one_call = snd (generateActivityInsights sample_env run None world0)"

definition after_first :: world where
  "after_first = snd (processActivityWithInsights sample_env run (Some GarminClient) None False world0)"

definition hiccup_env :: env where
  "hiccup_env = sample_env\<lparr>model_reply := (\<lambda>k. if k = 6 then Failure server_error
      else Reply (ascii ''Steady effort. [CONFIDENCE: 0.85]''))\<rparr>"

definition old_plain_block :: jsstring where
  "old_plain_block = ascii ''AI Insights (m, 70% confidence): easy day''"

definition new_comment :: jsstring where
  "new_comment = robot @ ascii '' AI Insights (m, 85% confidence): steady''"

definition plain_world :: world where
  "plain_world = world0\<lparr>garmin := (\<lambda>i. if i = ascii ''100''
     then Some (run_remote\<lparr>description := Some old_plain_block\<rparr>) else None)\<rparr>"

definition emoji_remote :: remote_activity where
  "emoji_remote = run_remote\<lparr>description := Some (ascii ''Hilly route.'' @ divider @ robot
     @ ascii '' AI Insights (m, 70% confidence): easy day'')\<rparr>"

definition emoji_world :: world where
  "emoji_world = world0\<lparr>garmin := (\<lambda>i. if i = ascii ''100'' then Some emoji_remote else None)\<rparr>"

text \<open>
  A process started at a time of day, and an environment in which the first request to
  the model takes longer to put together than the later ones and takes 300 ms to be
  answered.
\<close>

definition started :: world where
  "started = world0\<lparr>now := 1762128000000\<rparr>"

definition cold_start_env :: env where
  "cold_start_env = sample_env\<lparr>took := (\<lambda>k. if k = 0 then 300 else 0),
     prepared := (\<lambda>k. if k = 0 then 8 else 2)\<rparr>"

text \<open>The same for a batch, in which the first request is interaction 12.\<close>

definition cold_batch_env :: env where
  "cold_batch_env = sample_env\<lparr>took := (\<lambda>k. if k = 12 then 300 else 0),
     prepared := (\<lambda>k. if k = 12 then 8 else 2)\<rparr>"



definition walk :: GarminActivity where
  "walk = \<lparr>activityId = IdNumber 101, activityName = ascii ''Evening Walk'',
     typeKey = Some (ascii ''walking''), startTimeLocal = ascii ''10''\<rparr>"

section \<open>Properties of the confidence extraction\<close>

lemma tag_at_Nil: "tag_at [] = None"
  by (simp add: tag_at_def tag_head_def ascii_def)

lemma find_tag_first:
  "tag_at s = Some (num, rest) \<Longrightarrow> no_tag_before (length pre) (pre @ s) \<Longrightarrow>
   find_tag (pre @ s) = Some (pre, num, rest)"
proof (induction pre)
  case Nil
  then show ?case by (cases s) (simp_all add: tag_at_Nil)
next
  case (Cons c pre)
  then show ?case by simp
qed

lemma find_tag_none: "no_tag_before (length s) s \<Longrightarrow> find_tag s = None"
  by (induction s) simp_all

lemma tag_at_confidence_tag: "tag_at confidence_tag = Some (ascii ''0.85'', [])"
  by (simp add: confidence_tag_def tag_at_def tag_head_def ascii_def to_lower_def is_space_def
      is_numch_def is_digit_def)

lemma parseFloat_085: "parseFloat (ascii ''0.85'') = Num (85 / 100)"
  by (simp add: parseFloat_def ascii_def is_digit_def digits_val_def)

lemma clamp_range:
  "Math_min (Num 1) (Math_max (Num 0) x) = Num q \<Longrightarrow> 0 \<le> q \<and> q \<le> 1"
  by (cases x) auto

text \<open>
  C8, as amended. \<open>parseConfidence\<close> reads the first tag of the text, not the last:
  applied to a text that ends in \<open>[CONFIDENCE: 0.85]\<close> and in which the expression
  matches at no earlier position, it returns confidence exactly 0.85 and the text
  before the tag, trimmed. Applied to a text in which the expression matches nowhere, it
  returns the text unchanged with confidence 0.7. Whenever the returned confidence is a
  number, it lies between 0 and 1.
\<close>

theorem parseConfidence_first_tag:
  "(text = pre @ confidence_tag \<and> no_tag_before (length pre) text
      \<longrightarrow> parseConfidence text = (trim pre, Num (85 / 100)))
   \<and> (no_tag_before (length text) text \<longrightarrow> parseConfidence text = (text, Num (7 / 10)))
   \<and> (\<forall>q. snd (parseConfidence text) = Num q \<longrightarrow> 0 \<le> q \<and> q \<le> 1)"
proof -
  have first: "parseConfidence text = (trim pre, Num (85 / 100))"
    if t: "text = pre @ confidence_tag" and n: "no_tag_before (length pre) text"
  proof -
    have "find_tag text = Some (pre, ascii ''0.85'', [])"
      unfolding t by (rule find_tag_first [OF tag_at_confidence_tag n [unfolded t]])
    then show ?thesis by (simp add: parseConfidence_def parseFloat_085)
  qed
  have absent: "parseConfidence text = (text, Num (7 / 10))"
    if "no_tag_before (length text) text"
    using that by (simp add: parseConfidence_def find_tag_none)
  have range: "0 \<le> q \<and> q \<le> 1" if "snd (parseConfidence text) = Num q" for q
    using that by (auto simp: parseConfidence_def split: option.splits dest: clamp_range)
  from first absent range show ?thesis by blast
qed

theorem parseConfidence_first_tag_witness:
  "ascii ''Good run. [CONFIDENCE: 0.85]'' = ascii ''Good run. '' @ confidence_tag
   \<and> no_tag_before (length (ascii ''Good run. '')) (ascii ''Good run. [CONFIDENCE: 0.85]'')
   \<and> parseConfidence (ascii ''Good run. [CONFIDENCE: 0.85]'') = (ascii ''Good run.'', Num (85 / 100))
   \<and> no_tag_before (length (ascii ''Good run.'')) (ascii ''Good run.'')
   \<and> parseConfidence (ascii ''Good run.'') = (ascii ''Good run.'', Num (7 / 10))"
proof -
  have a: "ascii ''Good run. [CONFIDENCE: 0.85]'' = ascii ''Good run. '' @ confidence_tag"
    by (simp add: ascii_def confidence_tag_def)
  have b: "no_tag_before (length (ascii ''Good run. '')) (ascii ''Good run. [CONFIDENCE: 0.85]'')"
    by code_simp
  have c: "no_tag_before (length (ascii ''Good run.'')) (ascii ''Good run.'')"
    by code_simp
  have d: "trim (ascii ''Good run. '') = ascii ''Good run.''"
    by code_simp
  from parseConfidence_first_tag [of "ascii ''Good run. [CONFIDENCE: 0.85]''" "ascii ''Good run. ''"]
    a b d
  have e: "parseConfidence (ascii ''Good run. [CONFIDENCE: 0.85]'') = (ascii ''Good run.'', Num (85 / 100))"
    by metis
  from parseConfidence_first_tag [of "ascii ''Good run.''" "[]"] c
  have f: "parseConfidence (ascii ''Good run.'') = (ascii ''Good run.'', Num (7 / 10))"
    by blast
  from a b c e f show ?thesis by blast
qed

text \<open>
  The claim as stated fails twice. A text that ends in \<open>[CONFIDENCE: 0.85]\<close> but holds an
  earlier tag gets the confidence of the earlier tag, and the last tag stays in the
  insight; and a tag whose numeral is a lone dot matches the expression but does not
  parse, so that the confidence is \<open>NaN\<close>, which the clamp lets through.
\<close>

theorem parseConfidence_counterexample:
  "parseConfidence (ascii ''[CONFIDENCE: 0.2] '' @ confidence_tag) = (confidence_tag, Num (1 / 5))
   \<and> parseConfidence (ascii ''[CONFIDENCE: .]'') = ([], NaN)"
  by code_simp

section \<open>Properties of the remote comment\<close>

lemma hasExistingInsight_empty: "\<not> hasExistingInsight []"
  by (simp add: hasExistingInsight_def marker_def marker_plain_def robot_def ascii_def)

text \<open>
  C5. A call \<open>addActivityComment(id, comment, client, false)\<close> that fetched the
  activity: when the description holds the insight marker, the call returns true, the
  remote side is unchanged and nothing is posted; otherwise the description posted is
  the old one followed by the comment, with the divider between them exactly when the
  old description is not empty, and it replaces the remote description when the post
  succeeds.
\<close>

theorem addActivityComment_no_force:
  assumes fetched: "\<not> faulty E (steps w)" "garmin w aid = Some a"
  shows "(hasExistingInsight (description_or_empty a) \<longrightarrow>
            fst (addActivityComment E aid comment False w) = Inr True
          \<and> garmin (snd (addActivityComment E aid comment False w)) = garmin w
          \<and> trace (snd (addActivityComment E aid comment False w))
              = RemoteGet aid # trace w)
       \<and> (\<not> hasExistingInsight (description_or_empty a) \<longrightarrow>
            trace (snd (addActivityComment E aid comment False w))
              = RemotePost aid (appended (description_or_empty a) comment)
                  # RemoteGet aid # trace w
          \<and> (\<not> faulty E (Suc (steps w)) \<longrightarrow>
                fst (addActivityComment E aid comment False w) = Inr True
              \<and> garmin (snd (addActivityComment E aid comment False w))
                  = (garmin w)(aid := Some (a\<lparr>description :=
                      Some (appended (description_or_empty a) comment)\<rparr>)))
          \<and> (faulty E (Suc (steps w)) \<longrightarrow>
                fst (addActivityComment E aid comment False w) = Inr False
              \<and> garmin (snd (addActivityComment E aid comment False w)) = garmin w))"
  using fetched
  by (simp add: addActivityComment_def io_catch_def io_bind_def io_return_def getActivity_def
      post_description_def interact_def appended_def Let_def)

lemma sample_facts:
  "\<not> faulty sample_env (steps world0)" "garmin world0 (ascii ''100'') = Some run_remote"
  "description_or_empty run_remote = []"
  by (simp_all add: sample_env_def world0_def run_remote_def description_or_empty_def)

theorem addActivityComment_no_force_witness:
  "\<not> faulty sample_env (steps world0)
   \<and> garmin world0 (ascii ''100'') = Some run_remote
   \<and> \<not> hasExistingInsight (description_or_empty run_remote)
   \<and> \<not> faulty sample_env (Suc (steps world0))
   \<and> fst (addActivityComment sample_env (ascii ''100'') sample_comment False world0) = Inr True
   \<and> garmin (snd (addActivityComment sample_env (ascii ''100'') sample_comment False world0))
        (ascii ''100'') = Some (run_remote\<lparr>description := Some sample_comment\<rparr>)
   \<and> \<not> faulty sample_env (steps emoji_world)
   \<and> garmin emoji_world (ascii ''100'') = Some emoji_remote
   \<and> hasExistingInsight (description_or_empty emoji_remote)
   \<and> fst (addActivityComment sample_env (ascii ''100'') sample_comment False emoji_world) = Inr True
   \<and> garmin (snd (addActivityComment sample_env (ascii ''100'') sample_comment False emoji_world))
        = garmin emoji_world
   \<and> trace (snd (addActivityComment sample_env (ascii ''100'') sample_comment False emoji_world))
        = [RemoteGet (ascii ''100'')]"
proof -
  have h: "\<not> hasExistingInsight (description_or_empty run_remote)"
    by (simp add: sample_facts hasExistingInsight_empty)
  have f: "\<not> faulty sample_env (Suc (steps world0))"
    by (simp add: sample_env_def)
  have a: "appended (description_or_empty run_remote) sample_comment = sample_comment"
    by (simp add: sample_facts appended_def)
  from addActivityComment_no_force [OF sample_facts(1) sample_facts(2), of sample_comment] h f a
  have first: "fst (addActivityComment sample_env (ascii ''100'') sample_comment False world0)
        = Inr True
     \<and> garmin (snd (addActivityComment sample_env (ascii ''100'') sample_comment False world0))
        (ascii ''100'') = Some (run_remote\<lparr>description := Some sample_comment\<rparr>)"
    by simp
  have e1: "\<not> faulty sample_env (steps emoji_world)"
    and e2: "garmin emoji_world (ascii ''100'') = Some emoji_remote"
    and e3: "trace emoji_world = []"
    by (simp_all add: sample_env_def emoji_world_def world0_def)
  have e4: "hasExistingInsight (description_or_empty emoji_remote)" by code_simp
  from addActivityComment_no_force [OF e1 e2, of sample_comment] e3 e4
  have second: "fst (addActivityComment sample_env (ascii ''100'') sample_comment False emoji_world)
        = Inr True
     \<and> garmin (snd (addActivityComment sample_env (ascii ''100'') sample_comment False emoji_world))
        = garmin emoji_world
     \<and> trace (snd (addActivityComment sample_env (ascii ''100'') sample_comment False emoji_world))
        = [RemoteGet (ascii ''100'')]"
    by simp
  from sample_facts h f first e1 e2 e4 second show ?thesis by blast
qed

text \<open>
  C10. \<open>hasActivityInsight\<close> never raises: it always returns a boolean. When fetching the
  remote activity fails, or the service has no such activity, or the activity has no
  description, it returns false, exactly as for an activity without insight. In the
  sweep a failed fetch is therefore followed by the call of \<open>addActivityComment\<close> for
  that insight, in the state the failed fetch left, and the counter follows its result.
\<close>

theorem hasActivityInsight_total:
  "(\<exists>b. fst (hasActivityInsight E aid w) = Inr b)
   \<and> (faulty E (steps w) \<longrightarrow> fst (hasActivityInsight E aid w) = Inr False)
   \<and> (\<not> faulty E (steps w) \<and> garmin w aid = None \<longrightarrow>
        fst (hasActivityInsight E aid w) = Inr False)
   \<and> (\<not> faulty E (steps w) \<and> garmin w aid = Some a \<and> description a = None \<longrightarrow>
        fst (hasActivityInsight E aid w) = Inr False)
   \<and> (faulty E (steps w) \<and> d_activityId r = aid \<longrightarrow>
        sync_one E r n w =
          (case addActivityComment E aid
                  (insight_comment E (d_model r) (d_confidence r) (d_insight r)) False
                  (interact E (RemoteGet aid) w) of
             (success, w1) \<Rightarrow>
               (Inr (if success = Inr True then Suc n else n), snd (sleep E 1000 w1))))"
proof -
  have sweep: "sync_one E r n w =
          (case addActivityComment E aid
                  (insight_comment E (d_model r) (d_confidence r) (d_insight r)) False
                  (interact E (RemoteGet aid) w) of
             (success, w1) \<Rightarrow>
               (Inr (if success = Inr True then Suc n else n), snd (sleep E 1000 w1)))"
    if "faulty E (steps w)" "d_activityId r = aid"
    using that
    by (simp add: sync_one_def hasActivityInsight_def addActivityComment_def io_catch_def
        io_bind_def io_return_def getActivity_def post_description_def sleep_def Let_def
        split: option.splits)
  have total: "\<exists>b. fst (hasActivityInsight E aid w) = Inr b"
    by (cases "faulty E (steps w)")
      (auto simp add: hasActivityInsight_def io_catch_def io_bind_def io_return_def getActivity_def)
  have rest: "fst (hasActivityInsight E aid w) = Inr False"
    if "faulty E (steps w) \<or> garmin w aid = None
        \<or> (garmin w aid = Some a \<and> description a = None)"
    using that
    by (cases "faulty E (steps w)")
      (auto simp add: hasActivityInsight_def io_catch_def io_bind_def io_return_def
        getActivity_def description_or_empty_def hasExistingInsight_empty)
  from total rest sweep show ?thesis by blast
qed

theorem hasActivityInsight_total_witness:
  "faulty flaky_env (steps world0)
   \<and> fst (hasActivityInsight flaky_env (ascii ''100'') world0) = Inr False
   \<and> fst (sync_one flaky_env sample_row 0 world0) = Inr 1
   \<and> garmin (snd (sync_one flaky_env sample_row 0 world0)) (ascii ''100'')
        = Some (run_remote\<lparr>description := Some sample_comment\<rparr>)"
proof -
  have f: "faulty flaky_env (steps world0)"
    by (simp add: flaky_env_def world0_def)
  have i: "d_activityId sample_row = ascii ''100''"
    by (simp add: sample_row_def)
  have c: "insight_comment flaky_env (d_model sample_row) (d_confidence sample_row)
      (d_insight sample_row) = sample_comment"
    by (simp add: sample_row_def sample_comment_def insight_comment_def flaky_env_def sample_env_def)
  have e: "addActivityComment flaky_env (ascii ''100'') sample_comment False
      (interact flaky_env (RemoteGet (ascii ''100'')) world0)
     = (Inr True, (interact flaky_env (RemotePost (ascii ''100'') sample_comment)
         (interact flaky_env (RemoteGet (ascii ''100''))
           (interact flaky_env (RemoteGet (ascii ''100'')) world0)))
         \<lparr>garmin := (garmin world0)(ascii ''100'' :=
             Some (run_remote\<lparr>description := Some sample_comment\<rparr>))\<rparr>)"
    by (simp add: addActivityComment_def io_catch_def io_bind_def io_return_def getActivity_def
        post_description_def interact_def flaky_env_def sample_env_def world0_def Let_def
        run_remote_def description_or_empty_def hasExistingInsight_empty)
  from hasActivityInsight_total [of flaky_env "ascii ''100''" world0 run_remote sample_row 0] f i c e
  show ?thesis by (simp add: sleep_def interact_def)
qed

section \<open>Properties of the trend context\<close>

lemma find_in_set: "find P xs = Some x \<Longrightarrow> x \<in> set xs"
  by (induction xs) (auto split: if_splits)

lemma find_yesterday_in_set: "find_yesterday E y xs = Inr (Some x) \<Longrightarrow> x \<in> set xs"
  by (induction xs) (auto split: sum.splits if_splits)

lemma take_sort_filter_in_set:
  "x \<in> set (take n (sort_key k (filter Q xs))) \<Longrightarrow> x \<in> set xs"
proof -
  assume "x \<in> set (take n (sort_key k (filter Q xs)))"
  then have "x \<in> set (sort_key k (filter Q xs))" by (rule in_set_takeD)
  then show ?thesis by simp
qed

text \<open>
  C7. Whenever \<open>getHistoricalContext\<close> returns a context for the current activity \<open>A\<close> and
  the candidates \<open>C\<close>, every activity in one of its three fields is a candidate with the
  type tag of \<open>A\<close> and an identifier whose string differs from that of \<open>A\<close>.
\<close>

theorem getHistoricalContext_excludes_current:
  assumes "getHistoricalContext E A C = Inr ctx"
  shows "(\<forall>x. yesterdayActivity ctx = Some x \<or> lastWeekActivity ctx = Some x
              \<or> x \<in> set (recentActivities ctx) \<longrightarrow>
            x \<noteq> A \<and> x \<in> set C \<and> typeKey x = typeKey A
            \<and> String_of (activityId x) \<noteq> String_of (activityId A))"
proof -
  define S where "S = filter (\<lambda>a. typeKey a = typeKey A \<and>
      String_of (activityId a) \<noteq> String_of (activityId A)) C"
  note unf = assms [unfolded getHistoricalContext_def Let_def S_def [symmetric]]
  have "x \<in> set S"
    if "yesterdayActivity ctx = Some x \<or> lastWeekActivity ctx = Some x
        \<or> x \<in> set (recentActivities ctx)" for x
    using that
  proof (elim disjE)
    assume "yesterdayActivity ctx = Some x"
    with unf show ?thesis
      by (auto split: sum.splits dest: find_yesterday_in_set)
  next
    assume "lastWeekActivity ctx = Some x"
    with unf show ?thesis
      by (auto split: sum.splits dest: find_in_set)
  next
    assume "x \<in> set (recentActivities ctx)"
    with unf show ?thesis
      by (auto split: sum.splits dest: take_sort_filter_in_set)
  qed
  then show ?thesis by (auto simp: S_def)
qed

theorem getHistoricalContext_excludes_current_witness:
  "getHistoricalContext sample_env (activity_on 1 ''running'' ''10'') candidates = Inr sample_context
   \<and> activity_on 2 ''running'' ''9'' \<in> set candidates
   \<and> typeKey (activity_on 2 ''running'' ''9'') = typeKey (activity_on 1 ''running'' ''10'')
   \<and> String_of (activityId (activity_on 2 ''running'' ''9''))
        \<noteq> String_of (activityId (activity_on 1 ''running'' ''10''))"
proof -
  have g: "getHistoricalContext sample_env (activity_on 1 ''running'' ''10'') candidates
      = Inr sample_context"
    by code_simp
  have y: "yesterdayActivity sample_context = Some (activity_on 2 ''running'' ''9'')"
    by (simp add: sample_context_def)
  from getHistoricalContext_excludes_current [OF g] y g show ?thesis by blast
qed

section \<open>Properties of the generation client\<close>





lemma prepare_effect:
  "prepare E w = (Inr (), w\<lparr>now := now w + int (prepared E (steps w))\<rparr>)"
  by (simp add: prepare_def io_modify_def)

















section \<open>Frame properties\<close>

lemma call_times_of_calls_of: "call_times_of es = map snd (calls_of es)"
  by (induction es rule: calls_of.induct) simp_all

lemma call_times_calls: "call_times w = map snd (calls w)"
  by (simp add: call_times_def calls_def call_times_of_calls_of)

lemma quiet_call_times: "quiet m \<Longrightarrow> call_times (snd (m w)) = call_times w"
  by (simp add: quiet_def call_times_calls)

lemma quiet_return: "quiet (io_return x)"
  by (simp add: quiet_def io_return_def)

lemma quiet_throw: "quiet (io_throw e)"
  by (simp add: quiet_def io_throw_def)

lemma quiet_get: "quiet io_get"
  by (simp add: quiet_def io_get_def)

lemma quiet_lift: "quiet (io_lift r)"
  by (simp add: quiet_def io_lift_def)

lemma quiet_bind: "quiet m \<Longrightarrow> (\<And>x. quiet (f x)) \<Longrightarrow> quiet (io_bind m f)"
  unfolding quiet_def io_bind_def
proof (intro allI)
  fix w
  assume m: "\<forall>w. calls (snd (m w)) = calls w
      \<and> lastRequestTime (snd (m w)) = lastRequestTime w \<and> now w \<le> now (snd (m w))"
    and f: "\<And>x. \<forall>w. calls (snd (f x w)) = calls w
      \<and> lastRequestTime (snd (f x w)) = lastRequestTime w \<and> now w \<le> now (snd (f x w))"
  obtain r w' where mw: "m w = (r, w')" by (cases "m w")
  from m [rule_format, of w] mw have 1: "calls w' = calls w"
    "lastRequestTime w' = lastRequestTime w" "now w \<le> now w'" by simp_all
  show "calls (snd (case m w of (Inl e, w') \<Rightarrow> (Inl e, w') | (Inr x, w') \<Rightarrow> f x w')) = calls w
      \<and> lastRequestTime (snd (case m w of (Inl e, w') \<Rightarrow> (Inl e, w') | (Inr x, w') \<Rightarrow> f x w'))
          = lastRequestTime w
      \<and> now w \<le> now (snd (case m w of (Inl e, w') \<Rightarrow> (Inl e, w') | (Inr x, w') \<Rightarrow> f x w'))"
  proof (cases r)
    case (Inl e)
    then show ?thesis using mw 1 by simp
  next
    case (Inr x)
    from f [of x, rule_format, of w'] have "calls (snd (f x w')) = calls w'"
      "lastRequestTime (snd (f x w')) = lastRequestTime w'" "now w' \<le> now (snd (f x w'))"
      by simp_all
    then show ?thesis using mw 1 Inr by simp
  qed
qed

lemma quiet_catch: "quiet m \<Longrightarrow> (\<And>e. quiet (h e)) \<Longrightarrow> quiet (io_catch m h)"
  unfolding quiet_def io_catch_def
proof (intro allI)
  fix w
  assume m: "\<forall>w. calls (snd (m w)) = calls w
      \<and> lastRequestTime (snd (m w)) = lastRequestTime w \<and> now w \<le> now (snd (m w))"
    and f: "\<And>x. \<forall>w. calls (snd (h x w)) = calls w
      \<and> lastRequestTime (snd (h x w)) = lastRequestTime w \<and> now w \<le> now (snd (h x w))"
  obtain r w' where mw: "m w = (r, w')" by (cases "m w")
  from m [rule_format, of w] mw have 1: "calls w' = calls w"
    "lastRequestTime w' = lastRequestTime w" "now w \<le> now w'" by simp_all
  show "calls (snd (case m w of (Inl e, w') \<Rightarrow> h e w' | (Inr x, w') \<Rightarrow> (Inr x, w'))) = calls w
      \<and> lastRequestTime (snd (case m w of (Inl e, w') \<Rightarrow> h e w' | (Inr x, w') \<Rightarrow> (Inr x, w')))
          = lastRequestTime w
      \<and> now w \<le> now (snd (case m w of (Inl e, w') \<Rightarrow> h e w' | (Inr x, w') \<Rightarrow> (Inr x, w')))"
  proof (cases r)
    case (Inr x)
    then show ?thesis using mw 1 by simp
  next
    case (Inl e)
    from f [of e, rule_format, of w'] have "calls (snd (h e w')) = calls w'"
      "lastRequestTime (snd (h e w')) = lastRequestTime w'" "now w' \<le> now (snd (h e w'))"
      by simp_all
    then show ?thesis using mw 1 Inl by simp
  qed
qed

lemma quiet_if: "quiet m \<Longrightarrow> quiet n \<Longrightarrow> quiet (if b then m else n)"
  by simp

lemma quiet_db_call: "quiet (db_call E k valid)"
  by (simp add: quiet_def db_call_def interact_def calls_def)

lemma quiet_sleep: "quiet (sleep E ms)"
  by (simp add: quiet_def sleep_def interact_def calls_def timer_delay_def)

lemma quiet_getActivity: "quiet (getActivity E aid)"
  by (simp add: quiet_def getActivity_def interact_def calls_def)

lemma quiet_post_description: "quiet (post_description E aid a d)"
  by (simp add: quiet_def post_description_def interact_def calls_def)

lemma quiet_modify_store:
  "quiet (io_modify (\<lambda>w. w\<lparr>ai_columns := c w, ai_rows := r w\<rparr>))"
  "quiet (io_modify (\<lambda>w. w\<lparr>ai_rows := r w\<rparr>))"
  by (simp_all add: quiet_def io_modify_def calls_def)

lemmas quiet_intros = quiet_return quiet_throw quiet_get quiet_lift quiet_bind quiet_catch
  quiet_if quiet_db_call quiet_sleep quiet_getActivity quiet_post_description quiet_modify_store

lemma quiet_getDB: "quiet (getDB E)"
  by (simp add: getDB_def quiet_intros)

lemma quiet_columnExists: "quiet (columnExists E c)"
  unfolding columnExists_def by (intro quiet_intros)

lemma quiet_migrate: "quiet (migrate E c ok d)"
  unfolding migrate_def by (intro quiet_intros quiet_columnExists)

lemma quiet_initAIInsightsTable: "quiet (initAIInsightsTable E)"
  unfolding initAIInsightsTable_def by (intro quiet_intros quiet_getDB quiet_migrate)

lemma quiet_saveAIInsight: "quiet (saveAIInsight E d)"
  unfolding saveAIInsight_def by (intro quiet_intros quiet_getDB)

lemma quiet_getAIInsight: "quiet (getAIInsight E aid)"
  unfolding getAIInsight_def by (intro quiet_intros quiet_getDB)

lemma quiet_hasAIInsight: "quiet (hasAIInsight E aid)"
  unfolding hasAIInsight_def by (intro quiet_intros quiet_getAIInsight)

lemma quiet_getAllAIInsights: "quiet (getAllAIInsights E)"
  unfolding getAllAIInsights_def by (intro quiet_intros quiet_getDB)

lemma quiet_addActivityComment: "quiet (addActivityComment E aid c f)"
  unfolding addActivityComment_def Let_def
  by (intro quiet_intros) (auto split: option.splits intro!: quiet_intros)

lemma quiet_hasActivityInsight: "quiet (hasActivityInsight E aid)"
  unfolding hasActivityInsight_def by (intro quiet_intros)

lemma quiet_sync_one: "quiet (sync_one E r n)"
  unfolding sync_one_def
  by (intro quiet_intros quiet_hasActivityInsight quiet_addActivityComment)

lemma quiet_sync_loop: "quiet (sync_loop E rs n)"
  by (induction rs arbitrary: n) (auto intro!: quiet_intros quiet_sync_one)

lemma quiet_syncMissingInsightsToGarmin: "quiet (syncMissingInsightsToGarmin E cl)"
  unfolding syncMissingInsightsToGarmin_def
  by (intro quiet_intros quiet_initAIInsightsTable quiet_getAllAIInsights quiet_sync_loop)

section \<open>Properties of the reconciliation engine\<close>

lemma regated_interact: "interact (regated E b k) = interact E"
  by (simp add: fun_eq_iff interact_def regated_def)

lemma regated_db_call: "db_call (regated E b k) = db_call E"
  by (simp add: fun_eq_iff db_call_def regated_interact) (simp add: regated_def)

lemma regated_sleep: "sleep (regated E b k) = sleep E"
  by (simp add: fun_eq_iff sleep_def regated_interact) (simp add: regated_def)

lemma regated_getActivity: "getActivity (regated E b k) = getActivity E"
  by (simp add: fun_eq_iff getActivity_def regated_interact) (simp add: regated_def)

lemma regated_post_description: "post_description (regated E b k) = post_description E"
  by (simp add: fun_eq_iff post_description_def regated_interact) (simp add: regated_def)

lemma regated_insight_comment: "insight_comment (regated E b k) = insight_comment E"
  by (simp add: fun_eq_iff insight_comment_def regated_def)

lemma regated_migrate: "migrate (regated E b k) = migrate E"
  by (simp add: fun_eq_iff migrate_def columnExists_def regated_db_call cong: if_cong)

lemma regated_initAIInsightsTable: "initAIInsightsTable (regated E b k) = initAIInsightsTable E"
  by (simp add: initAIInsightsTable_def regated_migrate getDB_def regated_db_call cong: if_cong)

lemma regated_getAllAIInsights: "getAllAIInsights (regated E b k) = getAllAIInsights E"
  by (simp add: getAllAIInsights_def getDB_def regated_db_call)

lemma regated_addActivityComment: "addActivityComment (regated E b k) = addActivityComment E"
  by (simp add: fun_eq_iff addActivityComment_def regated_getActivity regated_post_description
      Let_def cong: if_cong option.case_cong)

lemma regated_hasActivityInsight: "hasActivityInsight (regated E b k) = hasActivityInsight E"
  by (simp add: fun_eq_iff hasActivityInsight_def regated_getActivity)

lemma regated_sync_one: "sync_one (regated E b k) = sync_one E"
  by (simp add: fun_eq_iff sync_one_def regated_hasActivityInsight regated_addActivityComment
      regated_sleep regated_insight_comment cong: if_cong)

lemma regated_sync_loop: "sync_loop (regated E b k) rs n = sync_loop E rs n"
proof (induction rs arbitrary: n)
  case Nil
  show ?case by simp
next
  case (Cons r rs)
  have "sync_loop (regated E b k) rs = sync_loop E rs"
    by (intro ext) (simp add: Cons.IH)
  then show ?case by (simp add: regated_sync_one)
qed

lemma regated_syncMissingInsightsToGarmin:
  "syncMissingInsightsToGarmin (regated E b k) cl = syncMissingInsightsToGarmin E cl"
  by (simp add: syncMissingInsightsToGarmin_def regated_initAIInsightsTable
      regated_getAllAIInsights regated_sync_loop cong: if_cong)

text \<open>
  C1, as amended. When the feature is disabled (the flag is false or the credential is
  unset), \<open>processActivityWithInsights\<close> and \<open>generateActivityInsights\<close> return \<open>null\<close> and
  \<open>processActivitiesWithInsights\<close> returns 0; they leave the state as it is (no model
  call, no access to the store, no access to the remote service) and do not raise.
  \<open>syncMissingInsightsToGarmin\<close> is not gated: it reads neither the flag nor the
  credential, so it does the same whatever their values, and it never calls the model.
\<close>

theorem disabled_entry_points_inert:
  "(\<not> isAIInsightsEnabled E \<longrightarrow>
       processActivityWithInsights E a cl acts force w = (Inr None, w)
     \<and> generateActivityInsights E a acts w = (Inr None, w)
     \<and> processActivitiesWithInsights E as cl w = (Inr 0, w))
   \<and> syncMissingInsightsToGarmin (regated E b k) c w = syncMissingInsightsToGarmin E c w
   \<and> call_times (snd (syncMissingInsightsToGarmin E c w)) = call_times w"
proof -
  have off: "processActivityWithInsights E a cl acts force w = (Inr None, w)
     \<and> generateActivityInsights E a acts w = (Inr None, w)
     \<and> processActivitiesWithInsights E as cl w = (Inr 0, w)"
    if "\<not> isAIInsightsEnabled E"
    using that
    by (simp add: processActivityWithInsights_def generateActivityInsights_def
        processActivitiesWithInsights_def io_return_def)
  have calls: "call_times (snd (syncMissingInsightsToGarmin E c w)) = call_times w"
    using quiet_syncMissingInsightsToGarmin [of E c] by (rule quiet_call_times)
  from off calls regated_syncMissingInsightsToGarmin [of E b k c] show ?thesis by simp
qed

theorem disabled_entry_points_inert_witness:
  "\<not> isAIInsightsEnabled disabled_env
   \<and> processActivityWithInsights disabled_env run (Some GarminClient) None False stored_world
       = (Inr None, stored_world)
   \<and> generateActivityInsights disabled_env run None stored_world = (Inr None, stored_world)
   \<and> processActivitiesWithInsights disabled_env [run] (Some GarminClient) stored_world
       = (Inr 0, stored_world)
   \<and> syncMissingInsightsToGarmin disabled_env GarminClient stored_world
       = syncMissingInsightsToGarmin sample_env GarminClient stored_world
   \<and> call_times (snd (syncMissingInsightsToGarmin disabled_env GarminClient stored_world)) = []"
proof -
  have d: "\<not> isAIInsightsEnabled disabled_env"
    by (simp add: disabled_env_def regated_def isAIInsightsEnabled_def)
  have c: "call_times stored_world = []"
    by (simp add: call_times_def stored_world_def world0_def)
  from disabled_entry_points_inert [of disabled_env run "Some GarminClient" None False
      stored_world "[run]" _ _ GarminClient]
    disabled_entry_points_inert [of sample_env run "Some GarminClient" None False
      stored_world "[run]" False None GarminClient] d c
  show ?thesis by (simp add: disabled_env_def)
qed

text \<open>
  With the feature disabled, \<open>syncMissingInsightsToGarmin\<close> on a store that holds one
  insight still posts it to the remote description and returns 1.
\<close>

theorem syncMissing_not_gated_counterexample:
  "\<not> isAIInsightsEnabled disabled_env
   \<and> fst (syncMissingInsightsToGarmin disabled_env GarminClient stored_world) = Inr 1
   \<and> garmin (snd (syncMissingInsightsToGarmin disabled_env GarminClient stored_world))
        (ascii ''100'') = Some (run_remote\<lparr>description := Some sample_comment\<rparr>)"
  by code_simp

lemma io_catch_returns: "\<exists>r. fst (io_catch m (\<lambda>e. io_return x) w) = Inr r"
  by (cases "m w") (auto simp: io_catch_def io_return_def split: sum.splits)

text \<open>
  C3, as amended. A failure of the insight store during a single-item
  \<open>processActivityWithInsights\<close> call does not leave the call: the call never raises, and
  when \<open>initAIInsightsTable\<close>, \<open>hasAIInsight\<close> or \<open>saveAIInsight\<close> raises, the call returns
  \<open>null\<close> in the state the failing step left.
\<close>

theorem processActivityWithInsights_catches:
  "(\<exists>r. fst (processActivityWithInsights E a cl acts force w) = Inr r)
   \<and> (isAIInsightsEnabled E \<and> fst (initAIInsightsTable E w) = Inl e \<longrightarrow>
        processActivityWithInsights E a cl acts force w
          = (Inr None, snd (initAIInsightsTable E w)))
   \<and> (isAIInsightsEnabled E \<and> initAIInsightsTable E w = (Inr (), w1)
        \<and> fst (hasAIInsight E (String_of (activityId a)) w1) = Inl e \<longrightarrow>
        processActivityWithInsights E a cl acts False w
          = (Inr None, snd (hasAIInsight E (String_of (activityId a)) w1)))
   \<and> (isAIInsightsEnabled E \<and> initAIInsightsTable E w = (Inr (), w1)
        \<and> generateActivityInsights E a acts w1 = (Inr (Some r), w2)
        \<and> fst (saveAIInsight E
             \<lparr>d_activityId = String_of (activityId a), d_activityName = activityName a,
              d_insight = insight r, d_model = model r, d_confidence = confidence r\<rparr> w2) = Inl e
        \<longrightarrow>
        processActivityWithInsights E a cl acts True w
          = (Inr None, snd (saveAIInsight E
             \<lparr>d_activityId = String_of (activityId a), d_activityName = activityName a,
              d_insight = insight r, d_model = model r, d_confidence = confidence r\<rparr> w2)))"
proof -
  have total: "\<exists>r. fst (processActivityWithInsights E a cl acts force w) = Inr r"
    unfolding processActivityWithInsights_def Let_def
    by (cases "isAIInsightsEnabled E") (simp_all add: io_catch_returns, simp add: io_return_def)
  have init: "processActivityWithInsights E a cl acts force w
          = (Inr None, snd (initAIInsightsTable E w))"
    if "isAIInsightsEnabled E" "fst (initAIInsightsTable E w) = Inl e"
    using that
    by (cases "initAIInsightsTable E w")
      (simp add: processActivityWithInsights_def io_catch_def io_bind_def io_return_def Let_def)
  have has: "processActivityWithInsights E a cl acts False w
          = (Inr None, snd (hasAIInsight E (String_of (activityId a)) w1))"
    if "isAIInsightsEnabled E" "initAIInsightsTable E w = (Inr (), w1)"
       "fst (hasAIInsight E (String_of (activityId a)) w1) = Inl e"
    using that
    by (cases "hasAIInsight E (String_of (activityId a)) w1")
      (simp add: processActivityWithInsights_def io_catch_def io_bind_def io_return_def Let_def)
  have save: "processActivityWithInsights E a cl acts True w
          = (Inr None, snd (saveAIInsight E
             \<lparr>d_activityId = String_of (activityId a), d_activityName = activityName a,
              d_insight = insight r, d_model = model r, d_confidence = confidence r\<rparr> w2))"
    if "isAIInsightsEnabled E" "initAIInsightsTable E w = (Inr (), w1)"
       "generateActivityInsights E a acts w1 = (Inr (Some r), w2)"
       "fst (saveAIInsight E
             \<lparr>d_activityId = String_of (activityId a), d_activityName = activityName a,
              d_insight = insight r, d_model = model r, d_confidence = confidence r\<rparr> w2) = Inl e"
    using that
    by (cases "saveAIInsight E
             \<lparr>d_activityId = String_of (activityId a), d_activityName = activityName a,
              d_insight = insight r, d_model = model r, d_confidence = confidence r\<rparr> w2")
      (simp add: processActivityWithInsights_def io_catch_def io_bind_def io_return_def Let_def)
  from total init has save show ?thesis by blast
qed

theorem processActivityWithInsights_catches_witness:
  "isAIInsightsEnabled full_disk_env
   \<and> fst (initAIInsightsTable full_disk_env world0) = Inr ()
   \<and> fst (generateActivityInsights full_disk_env run None
        (snd (initAIInsightsTable full_disk_env world0))) = Inr (Some sample_result)
   \<and> fst (saveAIInsight full_disk_env sample_row
        (snd (generateActivityInsights full_disk_env run None
          (snd (initAIInsightsTable full_disk_env world0))))) = Inl StoreError
   \<and> fst (processActivityWithInsights full_disk_env run None None True world0) = Inr None"
proof -
  have e: "isAIInsightsEnabled full_disk_env" by code_simp
  have i: "fst (initAIInsightsTable full_disk_env world0) = Inr ()" by code_simp
  have g: "fst (generateActivityInsights full_disk_env run None
        (snd (initAIInsightsTable full_disk_env world0))) = Inr (Some sample_result)"
    by code_simp
  have s: "fst (saveAIInsight full_disk_env sample_row
        (snd (generateActivityInsights full_disk_env run None
          (snd (initAIInsightsTable full_disk_env world0))))) = Inl StoreError"
    by code_simp
  have r: "\<lparr>d_activityId = String_of (activityId run), d_activityName = activityName run,
      d_insight = insight sample_result, d_model = model sample_result,
      d_confidence = confidence sample_result\<rparr> = sample_row"
    by code_simp
  from processActivityWithInsights_catches [of full_disk_env run None None True world0
      StoreError "snd (initAIInsightsTable full_disk_env world0)" sample_result
      "snd (generateActivityInsights full_disk_env run None
          (snd (initAIInsightsTable full_disk_env world0)))"] e i g s
  have "processActivityWithInsights full_disk_env run None None True world0
      = (Inr None, snd (saveAIInsight full_disk_env sample_row
        (snd (generateActivityInsights full_disk_env run None
          (snd (initAIInsightsTable full_disk_env world0))))))"
    unfolding r by (simp add: prod_eq_iff)
  with e i g s show ?thesis by simp
qed

text \<open>
  With a store whose every call fails, \<open>initAIInsightsTable\<close> raises and the call
  returns \<open>null\<close>.
\<close>

theorem store_failure_returns_null_counterexample:
  "isAIInsightsEnabled dead_disk_env
   \<and> fst (initAIInsightsTable dead_disk_env world0) = Inl StoreError
   \<and> fst (processActivityWithInsights dead_disk_env run None None False world0) = Inr None"
  by code_simp

section \<open>Properties of the rate limiter\<close>

lemma keeps_return: "keeps I (io_return x)"
  by (simp add: keeps_def io_return_def)

lemma keeps_lift: "keeps I (io_lift r)"
  by (simp add: keeps_def io_lift_def)

lemma keeps_bind: "keeps I m \<Longrightarrow> (\<And>x. keeps I (f x)) \<Longrightarrow> keeps I (io_bind m f)"
  unfolding keeps_def io_bind_def
proof (intro allI impI)
  fix w
  assume m: "\<forall>w. I w \<longrightarrow> I (snd (m w))" and f: "\<And>x. \<forall>w. I w \<longrightarrow> I (snd (f x w))" and i: "I w"
  obtain r w' where mw: "m w = (r, w')" by (cases "m w")
  from m i mw have i': "I w'" by fastforce
  show "I (snd (case m w of (Inl e, w') \<Rightarrow> (Inl e, w') | (Inr x, w') \<Rightarrow> f x w'))"
    using mw i' f by (cases r) auto
qed

lemma keeps_catch: "keeps I m \<Longrightarrow> (\<And>e. keeps I (h e)) \<Longrightarrow> keeps I (io_catch m h)"
  unfolding keeps_def io_catch_def
proof (intro allI impI)
  fix w
  assume m: "\<forall>w. I w \<longrightarrow> I (snd (m w))" and f: "\<And>x. \<forall>w. I w \<longrightarrow> I (snd (h x w))" and i: "I w"
  obtain r w' where mw: "m w = (r, w')" by (cases "m w")
  from m i mw have i': "I w'" by fastforce
  show "I (snd (case m w of (Inl e, w') \<Rightarrow> h e w' | (Inr x, w') \<Rightarrow> (Inr x, w')))"
    using mw i' f by (cases r) auto
qed

lemma keeps_if: "keeps I m \<Longrightarrow> keeps I n \<Longrightarrow> keeps I (if b then m else n)"
  by simp

lemma quiet_keeps: "quiet m \<Longrightarrow> keeps rate_inv m"
  unfolding keeps_def
proof (intro allI impI)
  fix w
  assume q: "quiet m" and i: "rate_inv w"
  from q have c: "calls (snd (m w)) = calls w"
    and l: "lastRequestTime (snd (m w)) = lastRequestTime w"
    and n: "now w \<le> now (snd (m w))"
    by (simp_all add: quiet_def)
  from i have "lastRequestTime w \<le> now w" by (simp add: rate_inv_def)
  with n have "lastRequestTime w \<le> now (snd (m w))" by simp
  with i show "rate_inv (snd (m w))"
    by (simp add: rate_inv_def c l split: list.splits prod.splits)
qed

lemma waitForRateLimit_effect:
  "calls (snd (waitForRateLimit E w)) = calls w
   \<and> lastRequestTime (snd (waitForRateLimit E w)) = now (snd (waitForRateLimit E w))
   \<and> now w \<le> now (snd (waitForRateLimit E w))
   \<and> fst (waitForRateLimit E w) = Inr ()"
  by (simp add: waitForRateLimit_def io_bind_def io_get_def io_modify_def io_return_def Let_def
      sleep_def calls_def interact_def timer_delay_def)

lemma waitForRateLimit_waits:
  "lastRequestTime w \<le> now w \<Longrightarrow>
   lastRequestTime w + MIN_REQUEST_INTERVAL_MS \<le> now (snd (waitForRateLimit E w))"
  by (simp add: waitForRateLimit_def io_bind_def io_get_def io_modify_def io_return_def Let_def
      sleep_def interact_def timer_delay_def TIMEOUT_MAX_def MIN_REQUEST_INTERVAL_MS_def)

lemma rate_inv_attempt_once: "rate_inv w \<Longrightarrow> rate_inv (snd (attempt_once E w))"
proof -
  assume i: "rate_inv w"
  obtain u w1 where w1: "waitForRateLimit E w = (Inr u, w1)"
    using waitForRateLimit_effect [of E w] by (cases "waitForRateLimit E w") auto
  from i have b: "lastRequestTime w \<le> now w" by (simp add: rate_inv_def)
  from waitForRateLimit_effect [of E w] waitForRateLimit_waits [OF b, of E] w1
  have c: "calls w1 = calls w" and l: "lastRequestTime w1 = now w1"
    and g: "lastRequestTime w + MIN_REQUEST_INTERVAL_MS \<le> now w1"
    by simp_all
  define w2 where "w2 = w1\<lparr>now := now w1 + int (prepared E (steps w1))\<rparr>"
  have c2: "calls w2 = calls w" and l2: "lastRequestTime w2 = now w1" and n2: "now w1 \<le> now w2"
    using c l by (simp_all add: w2_def calls_def)
  have p: "paced ((now w1, now w2) # calls w)"
  proof (cases "calls w")
    case Nil
    then show ?thesis using n2 by simp
  next
    case (Cons x xs)
    obtain s1 t1 where x: "x = (s1, t1)" by (cases x)
    from i Cons x have "paced ((s1, t1) # xs)" "s1 \<le> lastRequestTime w"
      by (simp_all add: rate_inv_def)
    with g n2 Cons x show ?thesis by simp
  qed
  have "rate_inv (interact E (ModelCall (lastRequestTime w2) (now w2)) w2)"
    using p c2 l2 n2 by (simp add: rate_inv_def calls_def interact_def)
  then show ?thesis
    by (simp add: attempt_once_def io_bind_def w1 prepare_effect w2_def [symmetric]
        generateContent_def io_return_def split: reply.splits prod.splits)
qed

lemma rate_inv_attempts: "rate_inv w \<Longrightarrow> rate_inv (snd (attempts E attempt w))"
proof (induction E attempt w rule: attempts.induct)
  case (1 E attempt w)
  show ?case
  proof (cases "attempt \<le> MAX_RETRIES")
    case False
    then show ?thesis using "1.prems" by (simp add: attempts.simps [of E attempt w])
  next
    case le: True
    obtain res w' where a: "attempt_once E w = (res, w')" by (cases "attempt_once E w")
    have i': "rate_inv w'"
      using rate_inv_attempt_once [OF "1.prems", of E] a by simp
    show ?thesis
    proof (cases res)
      case (Inr r)
      then show ?thesis using le a i' by (simp add: attempts.simps [of E attempt w])
    next
      case (Inl err)
      show ?thesis
      proof (cases "isRateLimited err \<and> attempt < MAX_RETRIES")
        case False
        then show ?thesis using le a i' Inl by (auto simp add: attempts.simps [of E attempt w])
      next
        case True
        obtain u w'' where s: "sleep E (retry_delay attempt err) w' = (u, w'')"
          by (cases "sleep E (retry_delay attempt err) w'")
        have "rate_inv (snd (sleep E (retry_delay attempt err) w'))"
          using quiet_keeps [OF quiet_sleep, of E "retry_delay attempt err"] i'
          by (auto simp: keeps_def)
        then have "rate_inv w''" using s by simp
        then have "rate_inv (snd (attempts E (Suc attempt) w''))"
          using "1.IH" [OF le a [symmetric] Inl True s [symmetric]] by simp
        moreover have "attempts E attempt w = attempts E (Suc attempt) w''"
          using le a Inl True s by (simp add: attempts.simps [of E attempt w])
        ultimately show ?thesis by simp
      qed
    qed
  qed
qed

lemma keeps_attempts: "keeps rate_inv (attempts E attempt)"
  by (simp add: keeps_def rate_inv_attempts)

lemma keeps_generateActivityInsights: "keeps rate_inv (generateActivityInsights E a acts)"
  unfolding generateActivityInsights_def
  by (intro keeps_if keeps_return keeps_bind keeps_lift keeps_attempts)

lemma keeps_case_option:
  "keeps I m \<Longrightarrow> (\<And>x. keeps I (f x)) \<Longrightarrow> keeps I (case opt of None \<Rightarrow> m | Some x \<Rightarrow> f x)"
  by (cases opt) simp_all

lemmas keeps_quiet = quiet_keeps [OF quiet_initAIInsightsTable] quiet_keeps [OF quiet_hasAIInsight]
  quiet_keeps [OF quiet_saveAIInsight] quiet_keeps [OF quiet_addActivityComment]
  quiet_keeps [OF quiet_sleep]

lemma keeps_processActivityWithInsights:
  "keeps rate_inv (processActivityWithInsights E a cl acts force)"
  unfolding processActivityWithInsights_def Let_def
  by (intro keeps_if keeps_return keeps_bind keeps_catch keeps_case_option
      keeps_generateActivityInsights keeps_quiet)

lemma keeps_process_loop: "keeps rate_inv (process_loop E cl acts rest n)"
proof (induction rest arbitrary: n)
  case Nil
  show ?case by (simp add: keeps_return)
next
  case (Cons a rest)
  show ?case
    unfolding process_loop.simps
    by (intro keeps_if keeps_return keeps_bind keeps_case_option keeps_quiet
        keeps_processActivityWithInsights Cons.IH)
qed

lemma keeps_processActivitiesWithInsights:
  "keeps rate_inv (processActivitiesWithInsights E acts cl)"
  unfolding processActivitiesWithInsights_def
  by (intro keeps_if keeps_return keeps_bind keeps_process_loop keeps_quiet)

text \<open>
  C9. Time is the clock of the state: \<open>Date.now()\<close> reads it, a timer advances it by at
  least the time it is set to, and every interaction with the outside advances it by the
  time it takes. \<open>waitForRateLimit\<close> assigns \<open>lastRequestTime\<close> when the wait is over; the
  client, the model handle and the prompt are put together after that, and only then is
  the request sent. A process that starts at time 1762128000000, whose first request
  takes 8 ms to put together and 300 ms to be answered, and whose later requests take
  2 ms to put together, calls \<open>generateActivityInsights\<close> twice in a row: the first
  request is sent at 1762128000008, the second at 1762128001002, which is 994 ms later
  and less than the minimum interval of 1000 ms. The same happens between the two
  activities of one \<open>processActivitiesWithInsights\<close> call.
\<close>

theorem generation_calls_under_interval:
  "calls (snd (generateActivityInsights cold_start_env run None
       (snd (generateActivityInsights cold_start_env run None started))))
     = [(1762128001000, 1762128001002), (1762128000000, 1762128000008)]
   \<and> \<not> spaced (call_times (snd (generateActivityInsights cold_start_env run None
       (snd (generateActivityInsights cold_start_env run None started)))))
   \<and> fst (processActivitiesWithInsights cold_batch_env [run, walk] None started) = Inr 2
   \<and> call_times (snd (processActivitiesWithInsights cold_batch_env [run, walk] None started))
       = [1762128001002, 1762128000008]
   \<and> MIN_REQUEST_INTERVAL_MS = 1000"
proof -
  have a: "calls (snd (generateActivityInsights cold_start_env run None
       (snd (generateActivityInsights cold_start_env run None started))))
     = [(1762128001000, 1762128001002), (1762128000000, 1762128000008)]"
    by code_simp
  have b: "\<not> spaced (call_times (snd (generateActivityInsights cold_start_env run None
       (snd (generateActivityInsights cold_start_env run None started)))))"
    by code_simp
  have c: "fst (processActivitiesWithInsights cold_batch_env [run, walk] None started) = Inr 2"
    by code_simp
  have d: "call_times (snd (processActivitiesWithInsights cold_batch_env [run, walk] None started))
       = [1762128001002, 1762128000008]"
    by code_simp
  from a b c d show ?thesis by (simp add: MIN_REQUEST_INTERVAL_MS_def)
qed

text \<open>
  What the rate limiter does ensure. The invariant holds when the process starts and
  every entry point of the engine keeps it, so that at any two successive model calls
  the values of \<open>lastRequestTime\<close> are at least 1000 ms apart, no request is sent before
  its value of \<open>lastRequestTime\<close>, and a request is sent at least 1000 ms after the value
  of \<open>lastRequestTime\<close> at the request before it: the two requests are less than 1000 ms
  apart by at most the time it took to put the earlier one together. \<open>waitForRateLimit\<close>
  returns no earlier than 1000 ms after the previous value of \<open>lastRequestTime\<close>, which
  it then sets to the current time.
\<close>

theorem request_stamps_paced:
  "(rate_inv w \<longrightarrow>
       rate_inv (snd (generateActivityInsights E a acts w))
     \<and> rate_inv (snd (processActivityWithInsights E a cl acts force w))
     \<and> rate_inv (snd (processActivitiesWithInsights E as cl w))
     \<and> rate_inv (snd (syncMissingInsightsToGarmin E c w)))
   \<and> (rate_inv w \<longrightarrow> paced (calls w))
   \<and> (trace w = [] \<and> lastRequestTime w \<le> now w \<longrightarrow> rate_inv w)
   \<and> (paced ((s2, t2) # (s1, t1) # cs) \<longrightarrow>
        s1 + 1000 \<le> s2 \<and> s1 \<le> t1 \<and> s2 \<le> t2 \<and> t1 + 1000 - (t1 - s1) \<le> t2)
   \<and> (lastRequestTime w \<le> now w \<longrightarrow>
        lastRequestTime w + 1000 \<le> now (snd (waitForRateLimit E w)))
   \<and> lastRequestTime (snd (waitForRateLimit E w)) = now (snd (waitForRateLimit E w))"
proof -
  have k: "rate_inv (snd (generateActivityInsights E a acts w))
     \<and> rate_inv (snd (processActivityWithInsights E a cl acts force w))
     \<and> rate_inv (snd (processActivitiesWithInsights E as cl w))
     \<and> rate_inv (snd (syncMissingInsightsToGarmin E c w))"
    if "rate_inv w"
    using that keeps_generateActivityInsights [of E a acts]
      keeps_processActivityWithInsights [of E a cl acts force]
      keeps_processActivitiesWithInsights [of E as cl]
      quiet_keeps [OF quiet_syncMissingInsightsToGarmin, of E c]
    by (simp add: keeps_def)
  have s: "paced (calls w)" if "rate_inv w"
    using that by (simp add: rate_inv_def)
  have i: "rate_inv w" if "trace w = [] \<and> lastRequestTime w \<le> now w"
    using that by (simp add: rate_inv_def calls_def)
  have p: "s1 + 1000 \<le> s2 \<and> s1 \<le> t1 \<and> s2 \<le> t2 \<and> t1 + 1000 - (t1 - s1) \<le> t2"
    if "paced ((s2, t2) # (s1, t1) # cs)"
    using that by (simp add: MIN_REQUEST_INTERVAL_MS_def)
  have g: "lastRequestTime w + 1000 \<le> now (snd (waitForRateLimit E w))"
    if "lastRequestTime w \<le> now w"
    using waitForRateLimit_waits [OF that, of E] by (simp add: MIN_REQUEST_INTERVAL_MS_def)
  from k s i p g waitForRateLimit_effect [of E w] show ?thesis
    by blast
qed

theorem request_stamps_paced_witness:
  "trace started = [] \<and> lastRequestTime started \<le> now started
   \<and> rate_inv started
   \<and> rate_inv (snd (generateActivityInsights cold_start_env run None started))
   \<and> rate_inv (snd (generateActivityInsights cold_start_env run None
        (snd (generateActivityInsights cold_start_env run None started))))
   \<and> paced [(1762128001000, 1762128001002), (1762128000000, 1762128000008)]
   \<and> (1762128000000::int) + 1000 \<le> 1762128001002"
proof -
  let ?w1 = "snd (generateActivityInsights cold_start_env run None started)"
  let ?w2 = "snd (generateActivityInsights cold_start_env run None ?w1)"
  have a: "trace started = [] \<and> lastRequestTime started \<le> now started"
    by (simp add: started_def world0_def)
  from request_stamps_paced [of started cold_start_env run None None False "[]" GarminClient] a
  have b: "rate_inv started" and c: "rate_inv ?w1"
    by blast+
  from request_stamps_paced [of ?w1 cold_start_env run None None False "[]" GarminClient] c
  have d: "rate_inv ?w2"
    by blast
  from request_stamps_paced [of ?w2] d
  have e: "paced (calls ?w2)"
    by blast
  have f: "calls ?w2 = [(1762128001000, 1762128001002), (1762128000000, 1762128000008)]"
    by code_simp
  from a b c d e f show ?thesis by simp
qed

section \<open>Idempotency of generate-and-post\<close>

lemma quietD: "quiet m \<Longrightarrow> m w = (r, w') \<Longrightarrow> call_times w' = call_times w"
  using quiet_call_times [of m w] by simp

lemma keepsD: "keeps I m \<Longrightarrow> I w \<Longrightarrow> m w = (r, w') \<Longrightarrow> I w'"
  unfolding keeps_def by (metis snd_conv)

lemma keeps_get_bind: "(\<And>w. I w \<Longrightarrow> I (snd (f w w))) \<Longrightarrow> keeps I (io_bind io_get f)"
  by (simp add: keeps_def io_bind_def io_get_def)

lemma keeps_store_has_db_call: "keeps (store_has aid) (db_call E k valid)"
  by (simp add: keeps_def db_call_def interact_def store_has_def)

lemma keeps_store_has_columnExists: "keeps (store_has aid) (columnExists E c)"
  unfolding columnExists_def
  by (intro keeps_get_bind keeps_bind keeps_store_has_db_call) (simp add: io_return_def)

lemma keeps_store_has_migrate:
  assumes "\<And>r. d_activityId (dflt r) = d_activityId r"
  shows "keeps (store_has aid) (migrate E c ok dflt)"
  unfolding migrate_def
proof (intro keeps_bind keeps_if keeps_return keeps_store_has_columnExists
    keeps_store_has_db_call)
  show "keeps (store_has aid)
     (io_modify (\<lambda>w. w\<lparr>ai_columns := map_option (\<lambda>cs. cs @ [c]) (ai_columns w),
        ai_rows := map dflt (ai_rows w)\<rparr>))"
    using assms by (auto simp: keeps_def io_modify_def store_has_def list_ex_iff)
qed

lemma keeps_store_has_init: "keeps (store_has aid) (initAIInsightsTable E)"
  unfolding initAIInsightsTable_def getDB_def
proof (intro keeps_get_bind keeps_bind keeps_store_has_db_call)
  fix w
  assume s: "store_has aid w"
  then have c: "ai_columns w \<noteq> None" by (simp add: store_has_def)
  have "keeps (store_has aid)
     (io_bind (migrate E col_model True (\<lambda>r. r\<lparr>d_model := ascii ''unknown''\<rparr>)) (\<lambda>_.
      io_bind (migrate E col_confidence True (\<lambda>r. r\<lparr>d_confidence := Num (7 / 10)\<rparr>)) (\<lambda>_.
      migrate E col_created_at False (\<lambda>r. r))))"
    by (intro keeps_bind keeps_store_has_migrate) simp_all
  with s c show "store_has aid
     (snd ((if ai_columns w = None
            then io_bind (db_call E DbWrite (\<lambda>w. ai_columns w = None)) (\<lambda>_.
                 io_modify (\<lambda>w. w\<lparr>ai_columns := Some full_schema, ai_rows := []\<rparr>))
            else io_bind (migrate E col_model True (\<lambda>r. r\<lparr>d_model := ascii ''unknown''\<rparr>)) (\<lambda>_.
                 io_bind (migrate E col_confidence True (\<lambda>r. r\<lparr>d_confidence := Num (7 / 10)\<rparr>)) (\<lambda>_.
                 migrate E col_created_at False (\<lambda>r. r)))) w))"
    by (auto simp: keeps_def)
qed

lemma hasAIInsight_found:
  "store_has aid w \<Longrightarrow> fst (hasAIInsight E aid w) = Inr b \<Longrightarrow> b"
  by (auto simp: hasAIInsight_def getAIInsight_def getDB_def db_call_def io_bind_def io_get_def
      io_return_def interact_def store_has_def list_ex_iff find_None_iff
      split: if_splits)

lemma skip_when_stored:
  assumes "store_has (String_of (activityId a)) w"
  shows "fst (processActivityWithInsights E a cl acts False w) = Inr None
       \<and> call_times (snd (processActivityWithInsights E a cl acts False w)) = call_times w"
proof (cases "isAIInsightsEnabled E")
  case False
  then show ?thesis by (simp add: processActivityWithInsights_def io_return_def)
next
  case True
  let ?aid = "String_of (activityId a)"
  obtain r1 w1 where i: "initAIInsightsTable E w = (r1, w1)" by (cases "initAIInsightsTable E w")
  have s1: "store_has ?aid w1"
    using keepsD [OF keeps_store_has_init assms i] .
  have c1: "call_times w1 = call_times w"
    using quietD [OF quiet_initAIInsightsTable i] .
  obtain r2 w2 where h: "hasAIInsight E ?aid w1 = (r2, w2)" by (cases "hasAIInsight E ?aid w1")
  have c2: "call_times w2 = call_times w1"
    using quietD [OF quiet_hasAIInsight h] .
  have b: "r2 = Inr x \<Longrightarrow> x" for x
    using hasAIInsight_found [OF s1, of E x] h by simp
  show ?thesis
    using True i h c1 c2 b
    by (auto simp: processActivityWithInsights_def io_catch_def io_bind_def io_return_def Let_def
        split: sum.splits)
qed

lemma store_ready_has: "store_ready aid w \<Longrightarrow> store_has aid w"
  by (auto simp: store_ready_def store_has_def has_columns_def split: option.splits)

lemma settled_refl: "store_ready aid w \<Longrightarrow> settled aid w w"
  by (simp add: settled_def)

lemma saveAIInsight_ready:
  "saveAIInsight E d w = (Inr u, w') \<Longrightarrow> store_ready (d_activityId d) w'"
  by (auto simp: saveAIInsight_def getDB_def db_call_def io_bind_def io_modify_def interact_def
      store_ready_def has_columns_def saved_columns_def split: if_splits option.splits)

lemma store_ready_interact: "store_ready aid (interact E ev w) = store_ready aid w"
  by (simp add: interact_def store_ready_def has_columns_def)

lemma keeps_ready_addActivityComment: "keeps (store_ready aid) (addActivityComment E i c f)"
proof -
  have g: "keeps (store_ready aid) (getActivity E i)"
    by (simp add: keeps_def getActivity_def store_ready_interact)
  have p: "keeps (store_ready aid) (post_description E i a d)" for a d
    by (simp add: keeps_def post_description_def interact_def store_ready_def has_columns_def)
  show ?thesis
    unfolding addActivityComment_def Let_def
    by (intro keeps_catch keeps_bind keeps_case_option keeps_if keeps_return g p)
qed

lemma settled_interact:
  "\<not> is_write ev \<Longrightarrow> call_times_of [ev] = [] \<Longrightarrow>
   settled aid w0 (interact E ev w) = settled aid w0 w"
  by (cases ev)
    (simp_all add: settled_def store_ready_interact, simp_all add: interact_def call_times_def
      writes_of_def)

lemma keeps_settled_db_call:
  "k \<noteq> DbWrite \<Longrightarrow> keeps (settled aid w0) (db_call E k valid)"
  by (cases k) (auto simp: keeps_def db_call_def settled_interact)

lemma migrate_present:
  "ai_columns w = Some cs \<Longrightarrow> c \<in> set cs \<Longrightarrow>
   snd (migrate E c ok d w) = interact E (Db DbRead) w"
  by (simp add: migrate_def columnExists_def db_call_def io_bind_def io_get_def io_return_def
      interact_def)

lemma keeps_settled_migrate:
  assumes "c \<in> set saved_columns"
  shows "keeps (settled aid w0) (migrate E c ok d)"
  unfolding keeps_def
proof (intro allI impI)
  fix w assume s: "settled aid w0 w"
  then obtain cs where cs: "ai_columns w = Some cs" and "list_all (\<lambda>c. c \<in> set cs) saved_columns"
    by (auto simp: settled_def store_ready_def has_columns_def split: option.splits)
  with assms have "c \<in> set cs" by (auto simp: list_all_iff)
  from migrate_present [OF cs this] have "snd (migrate E c ok d w) = interact E (Db DbRead) w" .
  moreover have "settled aid w0 (interact E (Db DbRead) w)"
    using s by (simp add: settled_interact)
  ultimately show "settled aid w0 (snd (migrate E c ok d w))" by simp
qed

lemma keeps_settled_init: "keeps (settled aid w0) (initAIInsightsTable E)"
  unfolding initAIInsightsTable_def getDB_def
proof (intro keeps_get_bind keeps_bind keeps_settled_db_call)
  fix w
  assume s: "settled aid w0 w"
  then have c: "ai_columns w \<noteq> None"
    by (auto simp: settled_def store_ready_def has_columns_def split: option.splits)
  have "keeps (settled aid w0)
     (io_bind (migrate E col_model True (\<lambda>r. r\<lparr>d_model := ascii ''unknown''\<rparr>)) (\<lambda>_.
      io_bind (migrate E col_confidence True (\<lambda>r. r\<lparr>d_confidence := Num (7 / 10)\<rparr>)) (\<lambda>_.
      migrate E col_created_at False (\<lambda>r. r))))"
    by (intro keeps_bind keeps_settled_migrate) (simp_all add: saved_columns_def)
  with s c show "settled aid w0
     (snd ((if ai_columns w = None
            then io_bind (db_call E DbWrite (\<lambda>w. ai_columns w = None)) (\<lambda>_.
                 io_modify (\<lambda>w. w\<lparr>ai_columns := Some full_schema, ai_rows := []\<rparr>))
            else io_bind (migrate E col_model True (\<lambda>r. r\<lparr>d_model := ascii ''unknown''\<rparr>)) (\<lambda>_.
                 io_bind (migrate E col_confidence True (\<lambda>r. r\<lparr>d_confidence := Num (7 / 10)\<rparr>)) (\<lambda>_.
                 migrate E col_created_at False (\<lambda>r. r)))) w))"
    by (auto simp: keeps_def)
qed simp_all

lemma keeps_settled_hasAIInsight: "keeps (settled aid w0) (hasAIInsight E i)"
  unfolding hasAIInsight_def getAIInsight_def getDB_def
  by (intro keeps_get_bind keeps_bind keeps_settled_db_call keeps_return)
    (simp_all add: io_return_def)

lemma second_call_settled:
  assumes "store_ready (String_of (activityId a)) w"
  shows "settled (String_of (activityId a)) w
     (snd (processActivityWithInsights E a cl acts False w))"
proof (cases "isAIInsightsEnabled E")
  case False
  then show ?thesis
    using assms by (simp add: processActivityWithInsights_def io_return_def settled_refl)
next
  case True
  let ?aid = "String_of (activityId a)"
  obtain r1 w1 where i: "initAIInsightsTable E w = (r1, w1)" by (cases "initAIInsightsTable E w")
  have s1: "settled ?aid w w1"
    using keepsD [OF keeps_settled_init settled_refl [OF assms] i] .
  then have h1: "store_has ?aid w1" by (simp add: settled_def store_ready_has)
  obtain r2 w2 where h: "hasAIInsight E ?aid w1 = (r2, w2)" by (cases "hasAIInsight E ?aid w1")
  have s2: "settled ?aid w w2"
    using keepsD [OF keeps_settled_hasAIInsight s1 h] .
  have b: "r2 = Inr x \<Longrightarrow> x" for x
    using hasAIInsight_found [OF h1, of E x] h by simp
  show ?thesis
    using True i h s1 s2 b
    by (auto simp: processActivityWithInsights_def io_catch_def io_bind_def io_return_def Let_def
        split: sum.splits)
qed

lemma first_call_ready:
  assumes res: "fst (processActivityWithInsights E a cl acts False w) = Inr (Some r)"
  shows "store_ready (String_of (activityId a))
     (snd (processActivityWithInsights E a cl acts False w))"
proof -
  let ?aid = "String_of (activityId a)"
  let ?P = "processActivityWithInsights E a cl acts False w"
  note defs = processActivityWithInsights_def io_catch_def io_bind_def io_return_def Let_def
  have en: "isAIInsightsEnabled E"
    using res by (cases "isAIInsightsEnabled E") (simp_all add: defs)
  obtain r1 w1 where i: "initAIInsightsTable E w = (r1, w1)"
    by (cases "initAIInsightsTable E w")
  obtain r2 w2 where h: "hasAIInsight E ?aid w1 = (r2, w2)"
    by (cases "hasAIInsight E ?aid w1")
  obtain r3 w3 where g: "generateActivityInsights E a acts w2 = (r3, w3)"
    by (cases "generateActivityInsights E a acts w2")
  from res en i have r1: "r1 = Inr ()"
    by (cases r1) (simp_all add: defs)
  from res en i h r1 have r2: "r2 = Inr False"
    by (cases r2) (auto simp add: defs split: if_splits)
  from res en i h g r1 r2 obtain r' where r3: "r3 = Inr (Some r')"
    by (cases r3) (auto simp add: defs split: option.splits)
  let ?d = "\<lparr>d_activityId = ?aid, d_activityName = activityName a,
      d_insight = insight r', d_model = model r', d_confidence = confidence r'\<rparr>"
  obtain r4 w4 where sv: "saveAIInsight E ?d w3 = (r4, w4)"
    by (cases "saveAIInsight E ?d w3")
  from res en i h g sv r1 r2 r3 have r4: "r4 = Inr ()"
    by (cases r4) (simp_all add: defs)
  have s4: "store_ready ?aid w4"
    using saveAIInsight_ready [of E ?d w3 "()" w4] sv r4 by simp
  show ?thesis
  proof (cases cl)
    case None
    then have "snd ?P = w4"
      using en i h g sv r1 r2 r3 r4 by (simp add: defs)
    with s4 show ?thesis by simp
  next
    case (Some c)
    let ?c = "addActivityComment E ?aid (insight_comment E (model r') (confidence r') (insight r'))
        False"
    obtain r5 w5 where cm: "?c w4 = (r5, w5)" by (cases "?c w4")
    have s5: "store_ready ?aid w5"
      using keepsD [OF keeps_ready_addActivityComment s4 cm] .
    have "snd ?P = w5"
      using Some en i h g sv cm r1 r2 r3 r4 by (cases r5) (simp_all add: defs)
    with s5 show ?thesis by simp
  qed
qed

text \<open>
  C2, as amended. If \<open>force\<close> is false and the store holds a record keyed by the
  identifier of the activity, \<open>processActivityWithInsights\<close> returns \<open>null\<close> without
  calling the model. And if a call with \<open>force\<close> false returns an insight, a second call
  with \<open>force\<close> false for the same identifier, made in the state the first one left,
  returns \<open>null\<close> and makes no model call, no store write and no remote write: the
  rows, the columns and the remote descriptions stay as they are.
\<close>

theorem processActivityWithInsights_idempotent:
  "(store_has (String_of (activityId a)) w \<longrightarrow>
       fst (processActivityWithInsights E a cl acts False w) = Inr None
     \<and> call_times (snd (processActivityWithInsights E a cl acts False w)) = call_times w)
   \<and> (fst (processActivityWithInsights E a cl acts False w) = Inr (Some r)
        \<and> String_of (activityId a2) = String_of (activityId a) \<longrightarrow>
       (let w1 = snd (processActivityWithInsights E a cl acts False w);
            w2 = snd (processActivityWithInsights E a2 cl2 acts2 False w1)
        in fst (processActivityWithInsights E a2 cl2 acts2 False w1) = Inr None
         \<and> call_times w2 = call_times w1
         \<and> writes_of w2 = writes_of w1
         \<and> ai_rows w2 = ai_rows w1 \<and> ai_columns w2 = ai_columns w1
         \<and> garmin w2 = garmin w1))"
proof -
  have second: "(let w1 = snd (processActivityWithInsights E a cl acts False w);
            w2 = snd (processActivityWithInsights E a2 cl2 acts2 False w1)
        in fst (processActivityWithInsights E a2 cl2 acts2 False w1) = Inr None
         \<and> call_times w2 = call_times w1
         \<and> writes_of w2 = writes_of w1
         \<and> ai_rows w2 = ai_rows w1 \<and> ai_columns w2 = ai_columns w1
         \<and> garmin w2 = garmin w1)"
    if f: "fst (processActivityWithInsights E a cl acts False w) = Inr (Some r)"
      and same: "String_of (activityId a2) = String_of (activityId a)"
  proof -
    let ?w1 = "snd (processActivityWithInsights E a cl acts False w)"
    have rd: "store_ready (String_of (activityId a2)) ?w1"
      using first_call_ready [OF f] same by simp
    from second_call_settled [OF rd, of E cl2 acts2]
      skip_when_stored [OF store_ready_has [OF rd], of E cl2 acts2]
    show ?thesis by (simp add: settled_def Let_def)
  qed
  from skip_when_stored [of a w E cl acts] second show ?thesis by blast
qed

theorem processActivityWithInsights_idempotent_witness:
  "store_has (String_of (activityId run)) stored_world
   \<and> fst (processActivityWithInsights sample_env run None None False stored_world) = Inr None
   \<and> fst (processActivityWithInsights sample_env run (Some GarminClient) None False world0)
        = Inr (Some sample_result)
   \<and> fst (processActivityWithInsights sample_env run (Some GarminClient) None False after_first)
        = Inr None
   \<and> call_times (snd (processActivityWithInsights sample_env run (Some GarminClient) None False
        after_first)) = call_times after_first
   \<and> writes_of (snd (processActivityWithInsights sample_env run (Some GarminClient) None False
        after_first)) = writes_of after_first"
proof -
  have a: "store_has (String_of (activityId run)) stored_world" by code_simp
  have b: "fst (processActivityWithInsights sample_env run (Some GarminClient) None False world0)
        = Inr (Some sample_result)"
    by code_simp
  from processActivityWithInsights_idempotent
    [of run stored_world sample_env None None sample_result run None None] a
  have c: "fst (processActivityWithInsights sample_env run None None False stored_world) = Inr None"
    by blast
  from processActivityWithInsights_idempotent
    [of run world0 sample_env "Some GarminClient" None sample_result run "Some GarminClient" None] b
  have d: "fst (processActivityWithInsights sample_env run (Some GarminClient) None False after_first)
        = Inr None
   \<and> call_times (snd (processActivityWithInsights sample_env run (Some GarminClient) None False
        after_first)) = call_times after_first
   \<and> writes_of (snd (processActivityWithInsights sample_env run (Some GarminClient) None False
        after_first)) = writes_of after_first"
    by (simp add: after_first_def Let_def)
  from a b c d show ?thesis by blast
qed

text \<open>
  Two calls in a row do not always generate exactly once: when the model fails in the
  first call nothing is stored, and the second call calls the model again, stores the
  insight and returns it.
\<close>

theorem generation_twice_counterexample:
  "(case processActivityWithInsights hiccup_env run None None False world0 of
      (r1, w1) \<Rightarrow>
        (case processActivityWithInsights hiccup_env run None None False w1 of
           (r2, w2) \<Rightarrow>
             r1 = Inr None \<and> r2 = Inr (Some sample_result)
             \<and> call_times w2 = [2000, 1000]
             \<and> map d_activityId (ai_rows w1) = []
             \<and> map d_activityId (ai_rows w2) = [ascii ''100'']))"
  by code_simp

section \<open>Forced replacement of the insight in the remote description\<close>

text \<open>
  C6 does not hold on the code. \<open>addActivityComment\<close> takes a description for one that
  holds an insight when it contains the emoji marker or the plain text
  \<open>AI Insights (\<close>, but \<open>insightPattern\<close> only matches blocks that start with the emoji
  marker. On a description whose insight has lost the emoji, a forced call that succeeds
  removes nothing and appends the new comment: the description then holds two insight
  blocks, the old one and the new one.
\<close>

theorem forced_regeneration_keeps_plain_block:
  "hasExistingInsight old_plain_block
   \<and> fst (addActivityComment sample_env (ascii ''100'') new_comment True plain_world) = Inr True
   \<and> map_option description
        (garmin (snd (addActivityComment sample_env (ascii ''100'') new_comment True plain_world))
           (ascii ''100''))
      = Some (Some (old_plain_block @ divider @ new_comment))
   \<and> count_occ marker_plain (old_plain_block @ divider @ new_comment) = 2"
proof -
  have a: "hasExistingInsight old_plain_block" by code_simp
  have b: "strip_blocks old_plain_block = old_plain_block" by code_simp
  have c: "trim old_plain_block = old_plain_block" by code_simp
  have d: "count_occ marker_plain (old_plain_block @ divider @ new_comment) = 2" by code_simp
  have e: "old_plain_block \<noteq> []" by (simp add: old_plain_block_def ascii_def)
  have f: "addActivityComment sample_env (ascii ''100'') new_comment True plain_world
      = (Inr True, (interact sample_env
           (RemotePost (ascii ''100'') (old_plain_block @ divider @ new_comment))
           (interact sample_env (RemoteGet (ascii ''100'')) plain_world))
         \<lparr>garmin := (garmin plain_world)(ascii ''100'' :=
             Some (run_remote\<lparr>description := Some (old_plain_block @ divider @ new_comment)\<rparr>))\<rparr>)"
    using a b c e
    by (simp add: addActivityComment_def io_catch_def io_bind_def io_return_def getActivity_def
        post_description_def interact_def sample_env_def world0_def plain_world_def Let_def
        run_remote_def description_or_empty_def)
  from a d show ?thesis unfolding f by simp
qed

lemma skip_block_shape: "skip_block s = [] \<or> starts_with divider (skip_block s)"
  by (induction s) auto

lemma block_at_shape: "block_at s = Some r \<Longrightarrow> r = [] \<or> starts_with divider r"
  using skip_block_shape by (auto simp: block_at_def split: if_splits)

lemma starts_with_append: "starts_with p s \<Longrightarrow> starts_with p (s @ t)"
  by (induction p s rule: starts_with.induct) auto

lemma starts_with_hd:
  "starts_with d r \<Longrightarrow> starts_with p r \<Longrightarrow> d \<noteq> [] \<Longrightarrow> p \<noteq> [] \<Longrightarrow> hd p = hd d"
  by (cases d; cases p; cases r) auto

lemma divider_hd: "hd divider = 0xA" "divider \<noteq> []"
  by (simp_all add: divider_def)

lemma strip_blocks_prefix:
  "starts_with p (strip_blocks s) \<Longrightarrow> 0xA \<notin> set p \<Longrightarrow> starts_with p s"
proof (induction s arbitrary: p rule: strip_blocks.induct)
  case 1
  then show ?case by simp
next
  case (2 c cs)
  show ?case
  proof (cases "block_at (c # cs)")
    case None
    show ?thesis
    proof (cases p)
      case Nil
      then show ?thesis by simp
    next
      case (Cons q qs)
      with "2.prems" None have "q = c" "starts_with qs (strip_blocks cs)" "0xA \<notin> set qs"
        by simp_all
      with "2.IH"(1) [OF None] Cons show ?thesis by simp
    qed
  next
    case (Some r)
    show ?thesis
    proof (cases p)
      case Nil
      then show ?thesis by simp
    next
      case (Cons q qs)
      from "2.prems" Some have "starts_with p (strip_blocks r)" by simp
      from "2.IH"(2) [OF Some this "2.prems"(2)] have pr: "starts_with p r" .
      from block_at_shape [OF Some] show ?thesis
      proof
        assume "r = []"
        with pr Cons show ?thesis by simp
      next
        assume "starts_with divider r"
        from starts_with_hd [OF this pr] Cons have "q = 0xA" by (simp add: divider_hd)
        with "2.prems"(2) Cons show ?thesis by simp
      qed
    qed
  qed
qed

lemma marker_no_newline: "0xA \<notin> set marker"
  by (simp add: marker_def robot_def ascii_def)

lemma block_at_marker: "starts_with marker s \<Longrightarrow> block_at s \<noteq> None"
  by (simp add: block_at_def)

lemma count_strip_blocks: "count_occ marker (strip_blocks s) = 0"
proof (induction s rule: strip_blocks.induct)
  case 1
  show ?case by simp
next
  case (2 c cs)
  show ?case
  proof (cases "block_at (c # cs)")
    case (Some r)
    with "2.IH"(2) show ?thesis by simp
  next
    case None
    have "\<not> starts_with marker (strip_blocks (c # cs))"
      using strip_blocks_prefix [OF _ marker_no_newline, of "c # cs"] block_at_marker [of "c # cs"]
        None by blast
    with None "2.IH"(1) show ?thesis by simp
  qed
qed

lemma starts_with_append_cancel:
  "starts_with p (s @ b) \<Longrightarrow> b = [] \<or> hd b \<notin> set p \<Longrightarrow> starts_with p s"
proof (induction p s rule: starts_with.induct)
  case (1 s)
  show ?case by simp
next
  case (2 p ps)
  then show ?case by (cases b) auto
next
  case (3 p ps c cs)
  then show ?case by auto
qed

lemma count_occ_append:
  "b = [] \<or> hd b \<notin> set p \<Longrightarrow> count_occ p (a @ b) = count_occ p a + count_occ p b"
proof (induction a)
  case Nil
  show ?case by simp
next
  case (Cons c a)
  have "starts_with p ((c # a) @ b) = starts_with p (c # a)"
    using starts_with_append_cancel [OF _ Cons.prems, of "c # a"] starts_with_append [of p "c # a" b]
    by blast
  with Cons show ?case by simp
qed

lemma count_occ_divider: "count_occ marker (divider @ c) = count_occ marker c"
  by (simp add: divider_def marker_def robot_def)

lemma count_occ_prefix: "count_occ p (a @ b) = 0 \<Longrightarrow> count_occ p a = 0"
proof (induction a)
  case Nil
  show ?case by simp
next
  case (Cons c a)
  then show ?case
    using starts_with_append [of p "c # a" b] by (auto split: if_splits)
qed

lemma count_occ_dropWhile: "count_occ p s = 0 \<Longrightarrow> count_occ p (dropWhile f s) = 0"
  by (induction s) (auto split: if_splits)

lemma count_occ_trim: "count_occ p s = 0 \<Longrightarrow> count_occ p (trim s) = 0"
proof -
  assume z: "count_occ p s = 0"
  let ?t = "dropWhile is_space s"
  have "?t = rev (dropWhile is_space (rev ?t)) @ rev (takeWhile is_space (rev ?t))"
    using takeWhile_dropWhile_id [of is_space "rev ?t"]
    by (metis rev_append rev_rev_ident)
  moreover have "count_occ p ?t = 0" using z by (rule count_occ_dropWhile)
  ultimately have "count_occ p (rev (dropWhile is_space (rev ?t))) = 0"
    using count_occ_prefix [of p "rev (dropWhile is_space (rev ?t))"
        "rev (takeWhile is_space (rev ?t))"] by simp
  then show ?thesis by (simp add: trim_def)
qed

lemma count_occ_absent: "p \<noteq> [] \<Longrightarrow> \<not> str_includes s p \<Longrightarrow> count_occ p s = 0"
  by (induction s) auto

lemma marker_nonempty: "marker \<noteq> []"
  by (simp add: marker_def robot_def)

lemma count_occ_new_description:
  assumes "count_occ marker base = 0"
  shows "count_occ marker (base @ (if base \<noteq> [] then divider else []) @ comment)
      = count_occ marker comment"
proof (cases "base = []")
  case True
  then show ?thesis by simp
next
  case False
  have "hd (divider @ comment) \<notin> set marker"
    by (simp add: divider_def marker_def robot_def ascii_def)
  then have "count_occ marker (base @ divider @ comment)
      = count_occ marker base + count_occ marker (divider @ comment)"
    by (intro count_occ_append) simp
  with assms False show ?thesis by (simp add: count_occ_divider)
qed

text \<open>
  What the forced call does achieve: when the fetch and the post succeed, the call
  returns true, the remote description becomes the old one without its blocks that start
  with the emoji marker, followed by the comment, and the emoji marker occurs in it
  exactly as often as in the comment.
\<close>

theorem force_replace_emoji_blocks:
  assumes "\<not> faulty E (steps w)" and "garmin w aid = Some a" and "\<not> faulty E (Suc (steps w))"
  shows "fst (addActivityComment E aid comment True w) = Inr True
       \<and> garmin (snd (addActivityComment E aid comment True w)) aid
           = Some (a\<lparr>description := Some (replaced (description_or_empty a) comment)\<rparr>)
       \<and> count_occ marker (replaced (description_or_empty a) comment)
           = count_occ marker comment"
proof -
  let ?old = "description_or_empty a"
  let ?base = "if hasExistingInsight ?old then trim (strip_blocks ?old) else ?old"
  have z: "count_occ marker ?base = 0"
  proof (cases "hasExistingInsight ?old")
    case True
    then show ?thesis by (simp add: count_occ_trim count_strip_blocks)
  next
    case False
    then have "\<not> str_includes ?old marker" by (simp add: hasExistingInsight_def)
    with False show ?thesis by (simp add: count_occ_absent marker_nonempty)
  qed
  have c: "count_occ marker (replaced ?old comment) = count_occ marker comment"
    unfolding replaced_def Let_def by (rule count_occ_new_description [OF z])
  have r: "fst (addActivityComment E aid comment True w) = Inr True
       \<and> garmin (snd (addActivityComment E aid comment True w)) aid
           = Some (a\<lparr>description := Some (replaced ?old comment)\<rparr>)"
    using assms
    by (simp add: addActivityComment_def io_catch_def io_bind_def io_return_def getActivity_def
        post_description_def interact_def replaced_def Let_def)
  from r c show ?thesis by simp
qed

theorem force_replace_emoji_blocks_witness:
  "\<not> faulty sample_env (steps emoji_world)
   \<and> garmin emoji_world (ascii ''100'') = Some emoji_remote
   \<and> \<not> faulty sample_env (Suc (steps emoji_world))
   \<and> replaced (description_or_empty emoji_remote) new_comment
        = ascii ''Hilly route.'' @ divider @ new_comment
   \<and> fst (addActivityComment sample_env (ascii ''100'') new_comment True emoji_world) = Inr True
   \<and> garmin (snd (addActivityComment sample_env (ascii ''100'') new_comment True emoji_world))
        (ascii ''100'')
        = Some (emoji_remote\<lparr>description := Some (ascii ''Hilly route.'' @ divider @ new_comment)\<rparr>)
   \<and> count_occ marker (ascii ''Hilly route.'' @ divider @ new_comment) = 1"
proof -
  have a: "\<not> faulty sample_env (steps emoji_world)"
    and b: "garmin emoji_world (ascii ''100'') = Some emoji_remote"
    and c: "\<not> faulty sample_env (Suc (steps emoji_world))"
    by (simp_all add: sample_env_def emoji_world_def world0_def)
  have d: "replaced (description_or_empty emoji_remote) new_comment
        = ascii ''Hilly route.'' @ divider @ new_comment"
    by code_simp
  have e: "count_occ marker new_comment = 1" by code_simp
  from force_replace_emoji_blocks [OF a b c, of new_comment] a b c d e
  show ?thesis by simp
qed

end
